theory Spec2Isabelle
  imports Complex_Main
begin

section \<open>Python strings\<close>

text \<open>
  A Python \<^verbatim>\<open>str\<close> is a sequence of Unicode code points; \<^verbatim>\<open>len\<close> counts code points.
  The texts handled by the repository are Arabic, so a string is modelled as the list of
  its code points.
\<close>

type_synonym ustring = "nat list"

definition ascii :: "string \<Rightarrow> ustring" where
  "ascii s = map of_char s"

text \<open>
  \<^verbatim>\<open>str.isspace\<close>, which is also what \<^verbatim>\<open>str.strip()\<close> removes and what \<^verbatim>\<open>\s\<close> matches in
  a \<^verbatim>\<open>str\<close> pattern: the code points 9-13, 28-32, 133, 160, 5760, 8192-8202, 8232, 8233,
  8239, 8287 and 12288.
\<close>

definition is_space :: "nat \<Rightarrow> bool" where
  "is_space c \<longleftrightarrow>
     (9 \<le> c \<and> c \<le> 13) \<or> (28 \<le> c \<and> c \<le> 32) \<or> c = 133 \<or> c = 160 \<or> c = 5760 \<or>
     (8192 \<le> c \<and> c \<le> 8202) \<or> c = 8232 \<or> c = 8233 \<or> c = 8239 \<or> c = 8287 \<or> c = 12288"

definition strip :: "ustring \<Rightarrow> ustring" where
  "strip s = rev (dropWhile is_space (rev (dropWhile is_space s)))"

text \<open>\<^verbatim>\<open>re.sub(r' +', ' ', s)\<close>: every maximal run of U+0020 becomes a single U+0020.\<close>

fun collapse_spaces :: "ustring \<Rightarrow> ustring" where
  "collapse_spaces (c # d # cs) =
     (if c = 32 \<and> d = 32 then collapse_spaces (d # cs) else c # collapse_spaces (d # cs))"
| "collapse_spaces cs = cs"

text \<open>A string in which no two U+0020 are adjacent.\<close>

definition single_spaced :: "ustring \<Rightarrow> bool" where
  "single_spaced xs = successively (\<lambda>a b. a \<noteq> 32 \<or> b \<noteq> 32) xs"

section \<open>Exceptions\<close>

datatype py_exn =
    ValueError
  | IndexError
  | AssertionError
  | KeyError
  | TypeError
  | HTTPError nat
  | Timeout
  | ConnectionError
  | RetryError

section \<open>The generation client (\<^verbatim>\<open>el-bayan-Hamza-rag-ocr/rag_system/llm/gemini_llm.py\<close>)\<close>

subsection \<open>The network\<close>

text \<open>
  A \<^verbatim>\<open>requests.Response\<close> as the client reads it: the status code, the text found at
  \<^verbatim>\<open>response.json()['choices'][0]['message']['content']\<close> (\<open>None\<close> when that lookup
  raises) and the decoded lines of \<^verbatim>\<open>response.iter_lines()\<close>.
\<close>

record response =
  status_code :: nat
  json_content :: "ustring option"
  iter_lines :: "ustring list"

datatype post_outcome = Raises py_exn | Returns response

text \<open>
  The service answers the \<open>n\<close>-th request of a run (counted from 0) as a function of the
  \<^verbatim>\<open>stream\<close> flag and the prompt of the payload. The world records what the client did:
  the number of requests posted, the seconds slept, in order, and the number of calls of
  \<^verbatim>\<open>generate\<close>.
\<close>

type_synonym server = "nat \<Rightarrow> bool \<Rightarrow> ustring \<Rightarrow> post_outcome"

record world =
  posts :: nat
  sleeps :: "nat list"
  generate_calls :: nat

definition requests_post :: "server \<Rightarrow> bool \<Rightarrow> ustring \<Rightarrow> world \<Rightarrow> post_outcome \<times> world" where
  "requests_post srv stream prompt w = (srv (posts w) stream prompt, w\<lparr>posts := posts w + 1\<rparr>)"

definition time_sleep :: "nat \<Rightarrow> world \<Rightarrow> world" where
  "time_sleep secs w = w\<lparr>sleeps := sleeps w @ [secs]\<rparr>"

text \<open>\<^verbatim>\<open>Response.raise_for_status\<close>: an \<^verbatim>\<open>HTTPError\<close> for a 4xx or 5xx status.\<close>

definition raise_for_status :: "response \<Rightarrow> py_exn option" where
  "raise_for_status r =
     (if 400 \<le> status_code r \<and> status_code r < 600 then Some (HTTPError (status_code r))
      else None)"

text \<open>
  What one \<^verbatim>\<open>data: \<close> payload of the stream holds, as far as the client looks:
  \<^verbatim>\<open>json.loads\<close> fails (\<open>JSONDecodeError\<close>), or the lookups
  \<^verbatim>\<open>chunk['choices'][0].get('delta', {}).get('content', '')\<close> give a text (empty when
  a key or the choices are missing), or they raise on a value of another shape.
\<close>

datatype delta_parse = JSONDecodeError | Delta ustring | Malformed py_exn

text \<open>
  The client: the service it talks to, the text post-processing applied to the body of a
  synchronous answer (\<^verbatim>\<open>postprocess_arabic_output\<close>, a composition of Unicode
  normalisation and regular-expression rewrites, kept as a parameter), the JSON reading
  of a stream payload, and \<^verbatim>\<open>template.format(context=..., question=...)\<close>, which
  raises on a template with other placeholders.
\<close>

record llm =
  service :: server
  postprocess_arabic_output :: "ustring \<Rightarrow> ustring"
  parse_delta :: "ustring \<Rightarrow> delta_parse"
  str_format :: "ustring \<Rightarrow> ustring \<Rightarrow> ustring \<Rightarrow> py_exn + ustring"

subsection \<open>\<^verbatim>\<open>GeminiLLM.generate\<close>\<close>

text \<open>
  The body of \<^verbatim>\<open>generate\<close>, one attempt. On status 429 it sleeps 2 seconds and calls
  \<^verbatim>\<open>raise_for_status\<close>, which raises; on any other status it calls \<^verbatim>\<open>raise_for_status\<close>
  and then reads the body. Both \<^verbatim>\<open>except\<close> clauses log and re-raise the exception they
  caught, so the body raises what the \<^verbatim>\<open>try\<close> block raised.
\<close>

definition generate_body :: "llm \<Rightarrow> ustring \<Rightarrow> world \<Rightarrow> (py_exn + ustring) \<times> world" where
  "generate_body L prompt w =
     (case requests_post (service L) False prompt w of
        (Raises e, w1) \<Rightarrow> (Inl e, w1)
      | (Returns r, w1) \<Rightarrow>
          (let w2 = (if status_code r = 429 then time_sleep 2 w1 else w1) in
           case raise_for_status r of
             Some e \<Rightarrow> (Inl e, w2)
           | None \<Rightarrow>
               (case json_content r of
                  None \<Rightarrow> (Inl KeyError, w2)
                | Some content \<Rightarrow> (Inr (postprocess_arabic_output L content), w2))))"

text \<open>
  The decorator of \<^verbatim>\<open>generate\<close>:
  \<^verbatim>\<open>@retry(stop=stop_after_attempt(5), wait=wait_exponential(multiplier=1, min=2, max=30),
  retry=retry_if_exception_type((HTTPError, Timeout)))\<close>.
  After attempt number \<open>n\<close> (from 1) raised an exception of one of the two classes, the
  call stops with \<^verbatim>\<open>RetryError\<close> when \<open>n \<ge> 5\<close>, and otherwise sleeps
  \<open>max 2 (min (1 * 2 ^ (n - 1)) 30)\<close> seconds and runs the body again. Any other exception,
  and any result, leaves the call at once.
\<close>

definition retry_if_exception_type :: "py_exn \<Rightarrow> bool" where
  "retry_if_exception_type e = (case e of HTTPError _ \<Rightarrow> True | Timeout \<Rightarrow> True | _ \<Rightarrow> False)"

definition stop_after_attempt :: nat where
  "stop_after_attempt = 5"

definition wait_exponential :: "nat \<Rightarrow> nat" where
  "wait_exponential n = max 2 (min (1 * 2 ^ (n - 1)) 30)"

function generate_attempt :: "llm \<Rightarrow> ustring \<Rightarrow> nat \<Rightarrow> world \<Rightarrow> (py_exn + ustring) \<times> world" where
  "generate_attempt L prompt n w =
     (case generate_body L prompt w of
        (Inr text, w1) \<Rightarrow> (Inr text, w1)
      | (Inl e, w1) \<Rightarrow>
          if retry_if_exception_type e then
            (if stop_after_attempt \<le> n then (Inl RetryError, w1)
             else generate_attempt L prompt (n + 1) (time_sleep (wait_exponential n) w1))
          else (Inl e, w1))"
  by pat_completeness auto
termination
  by (relation "measure (\<lambda>(L, prompt, n, w). stop_after_attempt - n)") auto

definition generate :: "llm \<Rightarrow> ustring \<Rightarrow> world \<Rightarrow> (py_exn + ustring) \<times> world" where
  "generate L prompt w = generate_attempt L prompt 1 (w\<lparr>generate_calls := generate_calls w + 1\<rparr>)"

subsection \<open>\<^verbatim>\<open>GeminiLLM.stream_generate\<close>\<close>

text \<open>
  A generator consumed to its end: the fragments it yielded, in order, how it ended, and
  the world after it.
\<close>

datatype outcome = Returned | Raised py_exn

type_synonym stream_result = "ustring list \<times> outcome \<times> world"

text \<open>
  The fallback of both terminal paths:
  \<^verbatim>\<open>try: r = self.generate(prompt); if r: yield r
  except Exception as e: logger.error(...)\<close>, followed by \<^verbatim>\<open>return\<close>.
\<close>

definition fallback :: "llm \<Rightarrow> ustring \<Rightarrow> world \<Rightarrow> stream_result" where
  "fallback L prompt w =
     (case generate L prompt w of
        (Inr non_stream_response, w1) \<Rightarrow>
          (if non_stream_response \<noteq> [] then [non_stream_response] else [], Returned, w1)
      | (Inl e, w1) \<Rightarrow> ([], Returned, w1))"

text \<open>
  What the loop body does with one line of the stream: nothing (an empty line, a line
  that does not start with \<^verbatim>\<open>data: \<close>, a payload that is not JSON, a payload without
  content), end the stream (the payload strips to \<^verbatim>\<open>[DONE]\<close>), yield a fragment, or
  raise.
\<close>

datatype line_action = Skip | Done | Fragment ustring | Fail py_exn

definition classify :: "llm \<Rightarrow> ustring \<Rightarrow> line_action" where
  "classify L line =
     (if line = [] then Skip
      else if take 6 line = ascii ''data: '' then
        (let data = drop 6 line in
         if strip data = ascii ''[DONE]'' then Done
         else
           (case parse_delta L data of
              JSONDecodeError \<Rightarrow> Skip
            | Delta content \<Rightarrow> if content \<noteq> [] then Fragment content else Skip
            | Malformed e \<Rightarrow> Fail e))
      else Skip)"

text \<open>
  \<^verbatim>\<open>for line in response.iter_lines(): ...\<close> with the code after the loop;
  \<open>chunks_yielded\<close> is the counter of the source.
\<close>

fun stream_lines :: "llm \<Rightarrow> ustring \<Rightarrow> ustring list \<Rightarrow> nat \<Rightarrow> world \<Rightarrow> stream_result" where
  "stream_lines L prompt [] chunks_yielded w =
     (if chunks_yielded = 0 then fallback L prompt w else ([], Returned, w))"
| "stream_lines L prompt (line # rest) chunks_yielded w =
     (case classify L line of
        Skip \<Rightarrow> stream_lines L prompt rest chunks_yielded w
      | Done \<Rightarrow> (if chunks_yielded = 0 then fallback L prompt w else ([], Returned, w))
      | Fragment content \<Rightarrow>
          (case stream_lines L prompt rest (chunks_yielded + 1) w of
             (ys, out, w1) \<Rightarrow> (content # ys, out, w1))
      | Fail e \<Rightarrow> ([], Raised e, w))"

text \<open>
  The retry loop \<^verbatim>\<open>for attempt in range(max_retries)\<close> and the code after it.
  \<open>last_error\<close> is the variable of the source: it is assigned in the
  \<^verbatim>\<open>except HTTPError\<close> clause only.
\<close>

function stream_attempts ::
  "llm \<Rightarrow> ustring \<Rightarrow> int \<Rightarrow> nat \<Rightarrow> py_exn option \<Rightarrow> world \<Rightarrow> stream_result" where
  "stream_attempts L prompt max_retries attempt last_error w =
     (if int attempt < max_retries then
        (case requests_post (service L) True prompt w of
           (Raises e, w1) \<Rightarrow>
             (if e = HTTPError 429 then
                stream_attempts L prompt max_retries (attempt + 1) (Some e)
                  (time_sleep (min (2 ^ attempt) 30) w1)
              else ([], Raised e, w1))
         | (Returns r, w1) \<Rightarrow>
             if status_code r = 429 then
               stream_attempts L prompt max_retries (attempt + 1) last_error
                 (time_sleep (min (2 ^ attempt) 30) w1)
             else
               (case raise_for_status r of
                  Some e \<Rightarrow> ([], Raised e, w1)
                | None \<Rightarrow> stream_lines L prompt (iter_lines r) 0 w1))
      else
        (case last_error of
           Some e \<Rightarrow> ([], Raised e, w)
         | None \<Rightarrow> ([], Returned, w)))"
  by pat_completeness auto
termination
  by (relation "measure (\<lambda>(L, prompt, max_retries, attempt, last_error, w).
        nat (max_retries - int attempt))") auto

definition stream_generate :: "llm \<Rightarrow> ustring \<Rightarrow> int \<Rightarrow> world \<Rightarrow> stream_result" where
  "stream_generate L prompt max_retries w = stream_attempts L prompt max_retries 0 None w"

subsection \<open>\<^verbatim>\<open>GeminiLLM.answer_question\<close>\<close>

text \<open>The template used when the caller passes \<^verbatim>\<open>None\<close>.\<close>

definition default_template :: ustring where
  "default_template =
     [1571, 1606, 1578, 32, 1605, 1587, 1575, 1593, 1583, 32, 1582, 1576, 1610, 1585, 32,
      1601, 1610, 32, 1602, 1608, 1575, 1593, 1583, 32, 1575, 1604, 1604, 1594, 1577, 32,
      1575, 1604, 1593, 1585, 1576, 1610, 1577, 32, 1608, 1575, 1604, 1606, 1581, 1608, 32,
      1608, 1575, 1604, 1589, 1585, 1601, 46, 10, 1575, 1587, 1578, 1582, 1583, 1605, 32,
      1575, 1604, 1587, 1610, 1575, 1602, 32, 1575, 1604, 1605, 1602, 1583, 1605, 32, 1604,
      1604, 1573, 1580, 1575, 1576, 1577, 32, 1593, 1604, 1609, 32, 1575, 1604, 1587, 1572,
      1575, 1604, 32, 1576, 1583, 1602, 1577, 32, 1608, 1608, 1590, 1608, 1581, 46, 10, 10,
      1575, 1604, 1587, 1610, 1575, 1602, 58, 10, 123, 99, 111, 110, 116, 101, 120, 116, 125,
      10, 10, 1575, 1604, 1587, 1572, 1575, 1604, 58, 32, 123, 113, 117, 101, 115, 116, 105,
      111, 110, 125, 10, 10, 1575, 1604, 1573, 1580, 1575, 1576, 1577, 58]"

definition answer_question ::
  "llm \<Rightarrow> ustring \<Rightarrow> ustring \<Rightarrow> ustring option \<Rightarrow> world \<Rightarrow> (py_exn + ustring) \<times> world" where
  "answer_question L question ctx system_prompt_template w =
     (let template = (case system_prompt_template of None \<Rightarrow> default_template | Some t \<Rightarrow> t) in
      case str_format L template ctx question of
        Inl e \<Rightarrow> (Inl e, w)
      | Inr prompt \<Rightarrow>
          (case generate L prompt w of
             (Inl e, w1) \<Rightarrow> (Inl e, w1)
           | (Inr answer, w1) \<Rightarrow> (Inr (postprocess_arabic_output L answer), w1)))"

section \<open>The vector store (\<^verbatim>\<open>el-bayan-Hamza-rag-ocr/rag_system/vector_store/faiss_store.py\<close>)\<close>

subsection \<open>Metadata dictionaries on the heap\<close>

text \<open>
  A metadata record is a Python \<^verbatim>\<open>dict\<close>, an object that the caller and the store may
  both hold: the heap maps an address to the dictionary stored there, and a reference to
  a dictionary is its address.
\<close>

datatype pyval = VInt int | VStr ustring | VFloat real

type_synonym pydict = "ustring \<rightharpoonup> pyval"

type_synonym addr = nat

type_synonym heap = "addr \<Rightarrow> pydict"

subsection \<open>The index\<close>

text \<open>
  \<^verbatim>\<open>faiss.IndexFlatIP(d)\<close>: the dimension and the stored vectors, in insertion order;
  \<^verbatim>\<open>ntotal\<close> is their number. Coordinates are real numbers here, where the library
  computes in 32-bit floating point.
\<close>

record faiss_index =
  ix_d :: nat
  ix_xb :: "real list list"

definition IndexFlatIP :: "nat \<Rightarrow> faiss_index" where
  "IndexFlatIP n = \<lparr>ix_d = n, ix_xb = []\<rparr>"

definition ntotal :: "faiss_index \<Rightarrow> nat" where
  "ntotal ix = length (ix_xb ix)"

text \<open>\<^verbatim>\<open>faiss.normalize_L2\<close> on one row: a row of norm 0 is left as it is.\<close>

definition normalize_L2 :: "real list \<Rightarrow> real list" where
  "normalize_L2 v =
     (let nr = sum_list (map (\<lambda>x. x * x) v) in
      if nr > 0 then map (\<lambda>x. x * (1 / sqrt nr)) v else v)"

text \<open>
  \<^verbatim>\<open>vectors = np.array(embeddings).astype('float32'); faiss.normalize_L2(vectors)\<close>.
  Rows of different lengths do not make an array (\<^verbatim>\<open>ValueError\<close>); an empty list makes
  an array of shape \<^verbatim>\<open>(0,)\<close>, on which \<^verbatim>\<open>normalize_L2\<close> fails reading \<^verbatim>\<open>shape[1]\<close>.
\<close>

definition normalized_array :: "real list list \<Rightarrow> py_exn + real list list" where
  "normalized_array embeddings =
     (case embeddings of
        [] \<Rightarrow> Inl IndexError
      | row # rows \<Rightarrow>
          if \<exists>r \<in> set rows. length r \<noteq> length row then Inl ValueError
          else Inr (map normalize_L2 embeddings))"

text \<open>\<^verbatim>\<open>index.add(x)\<close> asserts that the rows have the dimension of the index.\<close>

definition index_add :: "faiss_index \<Rightarrow> real list list \<Rightarrow> py_exn + faiss_index" where
  "index_add ix x =
     (if \<exists>r \<in> set x. length r \<noteq> ix_d ix then Inl AssertionError
      else Inr (ix\<lparr>ix_xb := ix_xb ix @ x\<rparr>))"

text \<open>
  \<^verbatim>\<open>index.search(x, k)\<close> for one query row: it asserts the dimension and \<open>k > 0\<close>, and
  returns \<open>k\<close> pairs of score and id, the inner products with the stored vectors in
  descending order (equal scores by ascending id), filled up with id \<open>-1\<close> when the
  index holds fewer than \<open>k\<close> vectors.
\<close>

definition inner_product :: "real list \<Rightarrow> real list \<Rightarrow> real" where
  "inner_product u v = sum_list (map2 (*) u v)"

definition lowest_score :: real where
  "lowest_score = - 340282346638528859811704183484516925440"

definition index_search :: "faiss_index \<Rightarrow> real list \<Rightarrow> int \<Rightarrow> py_exn + (real \<times> int) list" where
  "index_search ix q k =
     (if length q \<noteq> ix_d ix \<or> k \<le> 0 then Inl AssertionError
      else
        (let scored = zip (map (inner_product q) (ix_xb ix)) (map int [0..<ntotal ix]);
             ranked = sort_key (\<lambda>(score, idx). - score) scored
         in Inr (take (nat k) ranked @ replicate (nat k - length ranked) (lowest_score, - 1))))"

subsection \<open>\<^verbatim>\<open>FAISSVectorStore\<close>\<close>

record store =
  dimension :: nat
  index :: faiss_index
  texts :: "ustring list"
  metadata :: "addr list"
  id_to_metadata :: "nat \<rightharpoonup> addr"

text \<open>\<^verbatim>\<open>__init__\<close>\<close>

definition FAISSVectorStore :: "nat \<Rightarrow> store" where
  "FAISSVectorStore n =
     \<lparr>dimension = n, index = IndexFlatIP n, texts = [], metadata = [],
      id_to_metadata = Map.empty\<rparr>"

text \<open>
  The loop \<^verbatim>\<open>for i, (text, meta) in enumerate(zip(texts, metadata))\<close> of \<^verbatim>\<open>add_vectors\<close>:
  it writes \<^verbatim>\<open>'id'\<close> and \<^verbatim>\<open>'text'\<close> into the dictionary that \<open>meta\<close> refers to and
  stores the reference itself.
\<close>

fun store_entries :: "nat \<Rightarrow> nat \<Rightarrow> (ustring \<times> addr) list \<Rightarrow> store \<times> heap \<Rightarrow> store \<times> heap" where
  "store_entries start_id i [] sh = sh"
| "store_entries start_id i ((txt, meta) # rest) (st, h) =
     (let doc_id = start_id + i;
          h1 = h(meta := (h meta)(ascii ''id'' \<mapsto> VInt (int doc_id)));
          h2 = h1(meta := (h1 meta)(ascii ''text'' \<mapsto> VStr txt));
          st1 = st\<lparr>texts := texts st @ [txt],
                   metadata := metadata st @ [meta],
                   id_to_metadata := (id_to_metadata st)(doc_id \<mapsto> meta)\<rparr>
      in store_entries start_id (i + 1) rest (st1, h2))"

text \<open>
  \<^verbatim>\<open>add_vectors\<close> returns nothing: the result is the exception it raised, if any, and
  the store and the heap it leaves. The length check, the array conversion and
  \<^verbatim>\<open>index.add\<close> raise before anything is written.
\<close>

definition add_vectors ::
  "real list list \<Rightarrow> ustring list \<Rightarrow> addr list \<Rightarrow> store \<times> heap \<Rightarrow> py_exn option \<times> store \<times> heap" where
  "add_vectors embeddings txts metas sh =
     (case sh of (st, h) \<Rightarrow>
        if length embeddings \<noteq> length metas \<or> length embeddings \<noteq> length txts then
          (Some ValueError, st, h)
        else
          (case normalized_array embeddings of
             Inl e \<Rightarrow> (Some e, st, h)
           | Inr vectors \<Rightarrow>
               (let start_id = ntotal (index st) in
                case index_add (index st) vectors of
                  Inl e \<Rightarrow> (Some e, st, h)
                | Inr ix \<Rightarrow>
                    (case store_entries start_id 0 (zip txts metas) (st\<lparr>index := ix\<rparr>, h) of
                       (st1, h1) \<Rightarrow> (None, st1, h1)))))"

text \<open>
  The loop of \<^verbatim>\<open>search\<close> over the hits: a hit outside the metadata list is skipped, the
  others give a copy of the metadata dictionary with the score added.
\<close>

fun gather :: "store \<Rightarrow> heap \<Rightarrow> (real \<times> int) list \<Rightarrow> pydict list" where
  "gather st h [] = []"
| "gather st h ((score, idx) # rest) =
     (if idx < 0 \<or> idx \<ge> int (length (metadata st)) then gather st h rest
      else ((h (metadata st ! nat idx))(ascii ''score'' \<mapsto> VFloat score)) # gather st h rest)"

definition search :: "real list \<Rightarrow> int \<Rightarrow> store \<times> heap \<Rightarrow> py_exn + pydict list" where
  "search query_embedding k sh =
     (case sh of (st, h) \<Rightarrow>
        if ntotal (index st) = 0 then Inr []
        else
          (let query_vector = normalize_L2 query_embedding in
           case index_search (index st) query_vector (min k (int (ntotal (index st)))) of
             Inl e \<Rightarrow> Inl e
           | Inr hits \<Rightarrow> Inr (gather st h hits)))"

text \<open>\<^verbatim>\<open>clear\<close> assigns \<^verbatim>\<open>self.index\<close>, \<^verbatim>\<open>self.metadata\<close> and \<^verbatim>\<open>self.id_to_metadata\<close>.\<close>

definition clear :: "store \<Rightarrow> store" where
  "clear st =
     st\<lparr>index := IndexFlatIP (dimension st), metadata := [], id_to_metadata := Map.empty\<rparr>"

text \<open>\<^verbatim>\<open>r.get('score', 0)\<close> of a result, as a number.\<close>

definition score_of :: "pydict \<Rightarrow> real" where
  "score_of r =
     (case r (ascii ''score'') of Some (VFloat x) \<Rightarrow> x | Some (VInt i) \<Rightarrow> of_int i | _ \<Rightarrow> 0)"

text \<open>The invariant of the store: as many vectors as texts as metadata records.\<close>

definition consistent :: "store \<Rightarrow> bool" where
  "consistent st \<longleftrightarrow>
     ntotal (index st) = length (texts st) \<and> length (texts st) = length (metadata st)"

section \<open>The retrieval engine (\<^verbatim>\<open>el-bayan-Hamza-rag-ocr/rag_system/retrieval/retriever.py\<close>)\<close>

text \<open>
  \<^verbatim>\<open>normalize_arabic_text\<close> of the retriever. \<^verbatim>\<open>unicodedata.normalize('NFKC', text)\<close> is
  the parameter \<open>nfkc\<close>.
\<close>

definition normalize_arabic_text :: "(ustring \<Rightarrow> ustring) \<Rightarrow> ustring \<Rightarrow> ustring" where
  "normalize_arabic_text nfkc txt =
     (if txt = [] then txt else strip (collapse_spaces (nfkc txt)))"

text \<open>
  The library functions the formatting of a context uses: NFKC normalisation, the
  format \<^verbatim>\<open>.2f\<close> of a number and \<^verbatim>\<open>str\<close> of a float.
\<close>

record text_lib =
  nfkc_of :: "ustring \<Rightarrow> ustring"
  format_2f :: "real \<Rightarrow> ustring"
  str_float :: "real \<Rightarrow> ustring"

text \<open>\<^verbatim>\<open>str\<close> of an integer: its decimal digits.\<close>

function str_nat :: "nat \<Rightarrow> ustring" where
  "str_nat n = (if n < 10 then [48 + n] else str_nat (n div 10) @ [48 + n mod 10])"
  by pat_completeness auto
termination
  by (relation "measure (\<lambda>n. n)") auto

definition str_int :: "int \<Rightarrow> ustring" where
  "str_int i = (if i < 0 then 45 # str_nat (nat (- i)) else str_nat (nat i))"

definition py_str :: "text_lib \<Rightarrow> pyval \<Rightarrow> ustring" where
  "py_str T v = (case v of VStr s \<Rightarrow> s | VInt i \<Rightarrow> str_int i | VFloat x \<Rightarrow> str_float T x)"

text \<open>
  The engine: the embedder (\<^verbatim>\<open>embed_query\<close>, a model outside the repository, which
  may raise), the defaults \<^verbatim>\<open>top_k\<close> and \<^verbatim>\<open>min_score\<close>, and the text library. The
  vector store is passed as the state.
\<close>

record retrieval_engine =
  embed_query :: "ustring \<Rightarrow> py_exn + real list"
  top_k :: int
  min_score :: real
  lib :: text_lib

text \<open>
  \<^verbatim>\<open>[r for r in results if r.get('score', 0) >= min_score]\<close>: comparing a string with
  a number raises \<^verbatim>\<open>TypeError\<close>.
\<close>

fun filter_by_score :: "real \<Rightarrow> pydict list \<Rightarrow> py_exn + pydict list" where
  "filter_by_score m [] = Inr []"
| "filter_by_score m (r # rs) =
     (case (case r (ascii ''score'') of None \<Rightarrow> VInt 0 | Some v \<Rightarrow> v) of
        VStr s \<Rightarrow> Inl TypeError
      | VInt i \<Rightarrow>
          (case filter_by_score m rs of
             Inl e \<Rightarrow> Inl e
           | Inr kept \<Rightarrow> Inr (if of_int i \<ge> m then r # kept else kept))
      | VFloat x \<Rightarrow>
          (case filter_by_score m rs of
             Inl e \<Rightarrow> Inl e
           | Inr kept \<Rightarrow> Inr (if x \<ge> m then r # kept else kept)))"

definition retrieve ::
  "retrieval_engine \<Rightarrow> ustring \<Rightarrow> int option \<Rightarrow> real option \<Rightarrow> store \<times> heap \<Rightarrow>
   py_exn + pydict list" where
  "retrieve E query k_arg min_score_arg sh =
     (let k = (case k_arg of None \<Rightarrow> top_k E | Some k \<Rightarrow> k);
          m = (case min_score_arg of None \<Rightarrow> min_score E | Some m \<Rightarrow> m)
      in case embed_query E query of
           Inl e \<Rightarrow> Inl e
         | Inr query_embedding \<Rightarrow>
             (case search query_embedding k sh of
                Inl e \<Rightarrow> Inl e
              | Inr results \<Rightarrow> filter_by_score m results))"

text \<open>The string \<^verbatim>\<open>format_context\<close> returns for no results (22 code points).\<close>

definition no_information_available :: ustring where
  "no_information_available =
     [1604, 1575, 32, 1578, 1608, 1580, 1583, 32, 1605, 1593, 1604, 1608, 1605, 1575, 1578,
      32, 1605, 1578, 1575, 1581, 1577, 46]"

text \<open>
  One entry of the context,
  \<^verbatim>\<open>f"[<source-label> {i}: {source} (<score-label>: {score:.2f})]\n{text}\n"\<close>, where the
  two labels are Arabic literals. \<^verbatim>\<open>text\<close> has passed \<^verbatim>\<open>normalize_arabic_text\<close>, which
  returns a false value as it is and raises \<^verbatim>\<open>TypeError\<close> on any other value that
  is not a string; the format \<^verbatim>\<open>.2f\<close> raises \<^verbatim>\<open>ValueError\<close> on a string.
\<close>

definition context_part :: "text_lib \<Rightarrow> nat \<Rightarrow> pydict \<Rightarrow> py_exn + ustring" where
  "context_part T i result =
     (let txt = (case result (ascii ''text'') of None \<Rightarrow> VStr [] | Some v \<Rightarrow> v);
          src = (case result (ascii ''source'') of None \<Rightarrow> VStr (ascii ''unknown'') | Some v \<Rightarrow> v);
          score = (case result (ascii ''score'') of None \<Rightarrow> VInt 0 | Some v \<Rightarrow> v);
          normalized =
            (case txt of
               VStr s \<Rightarrow> Inr (VStr (normalize_arabic_text (nfkc_of T) s))
             | VInt n \<Rightarrow> if n = 0 then Inr txt else Inl TypeError
             | VFloat x \<Rightarrow> if x = 0 then Inr txt else Inl TypeError);
          shown =
            (case score of
               VStr s \<Rightarrow> Inl ValueError
             | VInt n \<Rightarrow> Inr (format_2f T (of_int n))
             | VFloat x \<Rightarrow> Inr (format_2f T x))
      in case normalized of
           Inl e \<Rightarrow> Inl e
         | Inr t \<Rightarrow>
             (case shown of
                Inl e \<Rightarrow> Inl e
              | Inr sc \<Rightarrow>
                  Inr ([91, 1605, 1589, 1583, 1585, 32] @ str_nat i @ [58, 32] @ py_str T src @
                       [32, 40, 1583, 1585, 1580, 1577, 32, 1575, 1604, 1578, 1588, 1575, 1576,
                        1607, 58, 32] @ sc @ [41, 93, 10] @ py_str T t @ [10])))"

fun context_parts :: "text_lib \<Rightarrow> nat \<Rightarrow> pydict list \<Rightarrow> py_exn + ustring list" where
  "context_parts T i [] = Inr []"
| "context_parts T i (result # rest) =
     (case context_part T i result of
        Inl e \<Rightarrow> Inl e
      | Inr part \<Rightarrow>
          (case context_parts T (i + 1) rest of
             Inl e \<Rightarrow> Inl e
           | Inr parts \<Rightarrow> Inr (part # parts)))"

text \<open>\<^verbatim>\<open>"\n".join(parts)\<close>\<close>

fun join_lines :: "ustring list \<Rightarrow> ustring" where
  "join_lines [] = []"
| "join_lines [p] = p"
| "join_lines (p # q # ps) = p @ [10] @ join_lines (q # ps)"

definition format_context :: "text_lib \<Rightarrow> pydict list \<Rightarrow> py_exn + ustring" where
  "format_context T results =
     (if results = [] then Inr no_information_available
      else
        (case context_parts T 1 results of
           Inl e \<Rightarrow> Inl e
         | Inr parts \<Rightarrow> Inr (join_lines parts)))"

text \<open>\<^verbatim>\<open>retrieve_and_format(query, top_k=5)\<close>\<close>

definition retrieve_and_format ::
  "retrieval_engine \<Rightarrow> ustring \<Rightarrow> int \<Rightarrow> store \<times> heap \<Rightarrow> py_exn + ustring \<times> pydict list" where
  "retrieve_and_format E query k sh =
     (case retrieve E query (Some k) None sh of
        Inl e \<Rightarrow> Inl e
      | Inr results \<Rightarrow>
          (case format_context (lib E) results of
             Inl e \<Rightarrow> Inl e
           | Inr ctx \<Rightarrow> Inr (ctx, results)))"

section \<open>The pipeline (\<^verbatim>\<open>rag_system/pipeline/rag_pipeline.py\<close>)\<close>

text \<open>
  The pipeline holds the retriever, the generation client and the prompt template of
  its configuration; the vector store and the heap are the state, the network is the
  world.
\<close>

record rag_pipeline =
  retriever :: retrieval_engine
  llm_client :: llm
  system_prompt :: ustring

text \<open>The string \<^verbatim>\<open>query\<close> compares the context with (24 code points).\<close>

definition no_relevant_information :: ustring where
  "no_relevant_information =
     [1604, 1575, 32, 1578, 1608, 1580, 1583, 32, 1605, 1593, 1604, 1608, 1605, 1575, 1578,
      32, 1584, 1575, 1578, 32, 1589, 1604, 1577, 46]"

text \<open>The answer \<^verbatim>\<open>query\<close> gives without calling the generation client (70 code points).\<close>

definition fallback_answer :: ustring where
  "fallback_answer =
     [1593, 1584, 1585, 1575, 1611, 1548, 32, 1604, 1605, 32, 1571, 1580, 1583, 32, 1605,
      1593, 1604, 1608, 1605, 1575, 1578, 32, 1603, 1575, 1601, 1610, 1577, 32, 1604, 1604,
      1573, 1580, 1575, 1576, 1577, 32, 1593, 1604, 1609, 32, 1607, 1584, 1575, 32, 1575,
      1604, 1587, 1572, 1575, 1604, 32, 1601, 1610, 32, 1575, 1604, 1605, 1585, 1575, 1580,
      1593, 32, 1575, 1604, 1605, 1578, 1575, 1581, 1577, 46]"

text \<open>
  An entry of \<^verbatim>\<open>response["sources"]\<close>: the text, the score, and the other fields of the
  result.
\<close>

record source_entry =
  src_text :: pyval
  src_score :: pyval
  src_metadata :: pydict

definition source_of :: "pydict \<Rightarrow> source_entry" where
  "source_of r =
     \<lparr>src_text = (case r (ascii ''text'') of None \<Rightarrow> VStr [] | Some v \<Rightarrow> v),
      src_score = (case r (ascii ''score'') of None \<Rightarrow> VFloat 0 | Some v \<Rightarrow> v),
      src_metadata = (\<lambda>k. if k = ascii ''text'' \<or> k = ascii ''score'' then None else r k)\<rparr>"

text \<open>
  The response dictionary: \<^verbatim>\<open>question\<close> and \<^verbatim>\<open>answer\<close> always, \<^verbatim>\<open>context\<close> and
  \<^verbatim>\<open>sources\<close> when \<^verbatim>\<open>return_context\<close> is set.
\<close>

record query_response =
  resp_question :: ustring
  resp_answer :: ustring
  resp_context :: "ustring option"
  resp_sources :: "source_entry list option"

definition query ::
  "rag_pipeline \<Rightarrow> ustring \<Rightarrow> bool \<Rightarrow> store \<times> heap \<Rightarrow> world \<Rightarrow>
   (py_exn + query_response) \<times> world" where
  "query P question return_context sh w =
     (case retrieve_and_format (retriever P) question 5 sh of
        Inl e \<Rightarrow> (Inl e, w)
      | Inr (ctx, results) \<Rightarrow>
          (case (if ctx = [] \<or> ctx = no_relevant_information then (Inr fallback_answer, w)
                 else answer_question (llm_client P) question ctx (Some (system_prompt P)) w) of
             (Inl e, w1) \<Rightarrow> (Inl e, w1)
           | (Inr answer, w1) \<Rightarrow>
               (Inr \<lparr>resp_question = question, resp_answer = answer,
                     resp_context = (if return_context then Some ctx else None),
                     resp_sources = (if return_context then Some (map source_of results) else None)\<rparr>,
                w1)))"

section \<open>The chunker (\<^verbatim>\<open>rag_system/chunking/text_chunker.py\<close>)\<close>

record text_chunker =
  chunk_size :: int
  overlap :: int
  min_chunk_size :: int

text \<open>
  A chunk is the dictionary with the keys \<^verbatim>\<open>text\<close>, \<^verbatim>\<open>source\<close>, \<^verbatim>\<open>chunk_id\<close> and
  \<^verbatim>\<open>sentences\<close>.
\<close>

record chunk =
  ch_text :: ustring
  ch_source :: ustring
  ch_chunk_id :: nat
  ch_sentences :: "ustring list"

subsection \<open>\<^verbatim>\<open>_split_into_sentences\<close>\<close>

text \<open>\<^verbatim>\<open>text.replace('\n', ' . ')\<close>\<close>

definition replace_newlines :: "ustring \<Rightarrow> ustring" where
  "replace_newlines txt = concat (map (\<lambda>c. if c = 10 then [32, 46, 32] else [c]) txt)"

text \<open>
  The terminators of the pattern \<^verbatim>\<open>[.?!;]\s+\<close>, where the question mark and the
  semicolon are the Arabic ones: U+002E, U+061F, U+0021, U+061B.
\<close>

definition is_terminator :: "nat \<Rightarrow> bool" where
  "is_terminator c \<longleftrightarrow> c = 46 \<or> c = 1567 \<or> c = 33 \<or> c = 1563"

text \<open>
  \<^verbatim>\<open>re.split\<close> on that pattern, scanning from the left: \<open>skipping\<close> holds inside the
  white space of a match, \<open>acc\<close> is the piece read so far, reversed.
\<close>

fun re_split :: "bool \<Rightarrow> ustring \<Rightarrow> ustring \<Rightarrow> ustring list" where
  "re_split skipping acc [] = [rev acc]"
| "re_split skipping acc (c # cs) =
     (if skipping \<and> is_space c then re_split True acc cs
      else
        (case cs of
           [] \<Rightarrow> re_split False (c # acc) cs
         | d # ds \<Rightarrow>
             if is_terminator c \<and> is_space d then rev acc # re_split True [] ds
             else re_split False (c # acc) cs))"

definition split_into_sentences :: "ustring \<Rightarrow> ustring list" where
  "split_into_sentences txt =
     (let pieces = re_split False [] (replace_newlines txt);
          stripped = map strip (filter (\<lambda>s. strip s \<noteq> []) pieces)
      in filter (\<lambda>s. 10 \<le> length s) stripped)"

subsection \<open>\<^verbatim>\<open>_get_overlap_text\<close>\<close>

text \<open>
  The loop over \<^verbatim>\<open>reversed(sentences)\<close>, which breaks at the first sentence that does
  not fit the budget.
\<close>

fun overlap_loop :: "int \<Rightarrow> ustring list \<Rightarrow> ustring \<Rightarrow> ustring" where
  "overlap_loop budget [] overlap_text = overlap_text"
| "overlap_loop budget (sentence # rest) overlap_text =
     (if int (length overlap_text) + int (length sentence) \<le> budget then
        overlap_loop budget rest (sentence @ [32] @ overlap_text)
      else overlap_text)"

definition get_overlap_text :: "text_chunker \<Rightarrow> ustring list \<Rightarrow> ustring" where
  "get_overlap_text C sents = strip (overlap_loop (overlap C) (rev sents) [])"

subsection \<open>\<^verbatim>\<open>chunk_text\<close>\<close>

text \<open>
  The loop over the sentences; the state is \<^verbatim>\<open>chunks\<close>, \<^verbatim>\<open>current_chunk\<close> and
  \<^verbatim>\<open>current_chunk_sentences\<close>.
\<close>

fun chunk_loop ::
  "text_chunker \<Rightarrow> ustring \<Rightarrow> ustring list \<Rightarrow> chunk list \<times> ustring \<times> ustring list \<Rightarrow>
   chunk list \<times> ustring \<times> ustring list" where
  "chunk_loop C src [] state = state"
| "chunk_loop C src (sentence # rest) (chunks, current_chunk, current_chunk_sentences) =
     (if int (length current_chunk) + int (length sentence) > chunk_size C \<and> current_chunk \<noteq> [] then
        chunk_loop C src rest
          (chunks @ [\<lparr>ch_text = strip current_chunk, ch_source = src,
                       ch_chunk_id = length chunks, ch_sentences = current_chunk_sentences\<rparr>],
           get_overlap_text C current_chunk_sentences @ [32] @ sentence,
           [sentence])
      else
        chunk_loop C src rest
          (chunks, current_chunk @ [32] @ sentence, current_chunk_sentences @ [sentence]))"

definition chunk_text :: "text_chunker \<Rightarrow> ustring \<Rightarrow> ustring \<Rightarrow> chunk list" where
  "chunk_text C txt src =
     (if txt = [] \<or> int (length (strip txt)) < min_chunk_size C then []
      else
        (case chunk_loop C src (split_into_sentences txt) ([], [], []) of
           (chunks, current_chunk, current_chunk_sentences) \<Rightarrow>
             if strip current_chunk \<noteq> [] \<and> int (length (strip current_chunk)) \<ge> min_chunk_size C then
               chunks @ [\<lparr>ch_text = strip current_chunk, ch_source = src,
                            ch_chunk_id = length chunks, ch_sentences = current_chunk_sentences\<rparr>]
             else chunks))"

subsection \<open>Notions used to state and prove the bounds on chunks\<close>

text \<open>\<^verbatim>\<open>" ".join(sentences)\<close>\<close>

fun join_spaces :: "ustring list \<Rightarrow> ustring" where
  "join_spaces [] = []"
| "join_spaces [s] = s"
| "join_spaces (s # t # ss) = s @ [32] @ join_spaces (t # ss)"

text \<open>
  A sentence as \<^verbatim>\<open>_split_into_sentences\<close> returns it: at least 10 characters, with no
  white space at either end. \<open>spaced\<close> is what the loop appends for a list of sentences:
  each sentence after a space.
\<close>

definition good_sentence :: "ustring \<Rightarrow> bool" where
  "good_sentence s \<longleftrightarrow> 10 \<le> length s \<and> \<not> is_space (hd s) \<and> \<not> is_space (last s)"

definition spaced :: "ustring list \<Rightarrow> ustring" where
  "spaced sents = concat (map (\<lambda>s. 32 # s) sents)"

definition chunk_ok :: "text_chunker \<Rightarrow> chunk \<Rightarrow> bool" where
  "chunk_ok C c \<longleftrightarrow>
     10 \<le> length (ch_text c) \<and> strip (ch_text c) = ch_text c \<and>
     (ch_text c = join_spaces (ch_sentences c) \<and> 2 \<le> length (ch_sentences c) \<longrightarrow>
        int (length (ch_text c)) \<le> chunk_size C)"

definition state_ok :: "text_chunker \<Rightarrow> chunk list \<times> ustring \<times> ustring list \<Rightarrow> bool" where
  "state_ok C state \<longleftrightarrow>
     (case state of (chunks, cur, sents) \<Rightarrow>
        list_all (chunk_ok C) chunks \<and>
        ((cur = [] \<and> sents = []) \<or>
         (sents \<noteq> [] \<and> list_all good_sentence sents \<and>
          (\<exists>pre. strip pre = pre \<and> cur = pre @ spaced sents) \<and>
          (2 \<le> length sents \<longrightarrow> int (length cur) \<le> chunk_size C + 1))))"

section \<open>Example inputs\<close>

text \<open>Concrete services, clients and pipelines on which the theorems below are run.\<close>

definition initial_world :: world where
  "initial_world = \<lparr>posts = 0, sleeps = [], generate_calls = 0\<rparr>"

definition example_llm :: "server \<Rightarrow> llm" where
  "example_llm srv =
     \<lparr>service = srv, postprocess_arabic_output = (\<lambda>s. s), parse_delta = (\<lambda>d. Delta d),
      str_format = (\<lambda>template ctx question. Inr (template @ ctx @ question))\<rparr>"

definition ok_response :: "ustring \<Rightarrow> ustring list \<Rightarrow> response" where
  "ok_response body ls = \<lparr>status_code = 200, json_content = Some body, iter_lines = ls\<rparr>"

definition error_response :: "nat \<Rightarrow> response" where
  "error_response code = \<lparr>status_code = code, json_content = None, iter_lines = []\<rparr>"

text \<open>A service that answers 500 once and then 200 with the body \<^verbatim>\<open>ok\<close>.\<close>

definition failing_once :: server where
  "failing_once n stream prompt =
     (if n = 0 then Returns (error_response 500) else Returns (ok_response (ascii ''ok'') []))"

text \<open>A service that answers every request with 429.\<close>

definition rate_limited :: server where
  "rate_limited n stream prompt = Returns (error_response 429)"

text \<open>
  A service whose stream holds nothing but the end marker, and whose synchronous answer
  is the given body.
\<close>

definition silent_stream :: "ustring \<Rightarrow> server" where
  "silent_stream body n stream prompt =
     (if stream then Returns (ok_response [] [ascii ''data: [DONE]''])
      else Returns (ok_response body []))"

definition example_pipeline :: "server \<Rightarrow> rag_pipeline" where
  "example_pipeline srv =
     \<lparr>retriever =
        \<lparr>embed_query = (\<lambda>q. Inr []), top_k = 5, min_score = 3 / 10,
         lib = \<lparr>nfkc_of = (\<lambda>s. s), format_2f = (\<lambda>x. []), str_float = (\<lambda>x. [])\<rparr>\<rparr>,
      llm_client = example_llm srv,
      system_prompt = []\<rparr>"

text \<open>
  A heap of empty dictionaries, and the store of dimension 2 after the unit vectors were
  added with the texts \<^verbatim>\<open>a\<close> and \<^verbatim>\<open>b\<close> and the dictionaries at the addresses 0 and 1.
\<close>

definition example_heap :: heap where
  "example_heap = (\<lambda>a. Map.empty)"

definition two_entries :: "store \<times> heap" where
  "two_entries =
     snd (add_vectors [[1, 0], [0, 1]] [ascii ''a'', ascii ''b''] [0, 1]
            (FAISSVectorStore 2, example_heap))"

text \<open>
  A normalisation that maps the no-break space U+00A0 to U+0020, as NFKC does, and
  leaves every other character.
\<close>

definition nbsp_to_space :: "ustring \<Rightarrow> ustring" where
  "nbsp_to_space s = map (\<lambda>c. if c = 160 then 32 else c) s"

text \<open>
  A text of three sentences of 10, 14 and 12 characters: ten \<^verbatim>\<open>a\<close>, fourteen \<^verbatim>\<open>b\<close> and
  twelve \<^verbatim>\<open>c\<close>, separated by a full stop and a space.
\<close>

definition three_sentences :: ustring where
  "three_sentences =
     [97, 97, 97, 97, 97, 97, 97, 97, 97, 97, 46, 32,
      98, 98, 98, 98, 98, 98, 98, 98, 98, 98, 98, 98, 98, 98, 46, 32,
      99, 99, 99, 99, 99, 99, 99, 99, 99, 99, 99, 99]"

section \<open>Properties of the generation client\<close>

declare generate_attempt.simps [simp del]
declare stream_attempts.simps [simp del]

subsection \<open>What a call of \<^verbatim>\<open>generate\<close> does to the world\<close>

lemma generate_body_world:
  "posts (snd (generate_body L p w)) = posts w + 1 \<and>
   generate_calls (snd (generate_body L p w)) = generate_calls w"
  by (auto simp: generate_body_def requests_post_def time_sleep_def Let_def
      split: post_outcome.splits option.splits)

lemma generate_attempt_calls:
  "generate_calls (snd (generate_attempt L p n w)) = generate_calls w"
proof (induction L p n w rule: generate_attempt.induct)
  case (1 L prompt n w)
  obtain r w1 where b: "generate_body L prompt w = (r, w1)"
    by (cases "generate_body L prompt w")
  have c: "generate_calls w1 = generate_calls w"
    using generate_body_world [of L prompt w] b by simp
  show ?case
  proof (cases r)
    case (Inr t)
    then show ?thesis using b c by (subst generate_attempt.simps) simp
  next
    case (Inl e)
    show ?thesis
    proof (cases "retry_if_exception_type e \<and> \<not> stop_after_attempt \<le> n")
      case True
      then have "generate_calls
            (snd (generate_attempt L prompt (n + 1) (time_sleep (wait_exponential n) w1)))
          = generate_calls (time_sleep (wait_exponential n) w1)"
        using "1.IH" [OF b [symmetric] Inl] by simp
      then show ?thesis using b c Inl True
        by (subst generate_attempt.simps) (simp add: time_sleep_def)
    next
      case False
      then show ?thesis using b c Inl
        by (subst generate_attempt.simps) auto
    qed
  qed
qed

lemma generate_attempt_posts:
  "posts w + 1 \<le> posts (snd (generate_attempt L p n w))"
proof (induction L p n w rule: generate_attempt.induct)
  case (1 L prompt n w)
  obtain r w1 where b: "generate_body L prompt w = (r, w1)"
    by (cases "generate_body L prompt w")
  have c: "posts w1 = posts w + 1"
    using generate_body_world [of L prompt w] b by simp
  show ?case
  proof (cases r)
    case (Inr t)
    then show ?thesis using b c by (subst generate_attempt.simps) simp
  next
    case (Inl e)
    show ?thesis
    proof (cases "retry_if_exception_type e \<and> \<not> stop_after_attempt \<le> n")
      case True
      then have "posts (time_sleep (wait_exponential n) w1) + 1
          \<le> posts (snd (generate_attempt L prompt (n + 1) (time_sleep (wait_exponential n) w1)))"
        using "1.IH" [OF b [symmetric] Inl] by simp
      then show ?thesis using b c Inl True
        by (subst generate_attempt.simps) (simp add: time_sleep_def)
    next
      case False
      then show ?thesis using b c Inl
        by (subst generate_attempt.simps) auto
    qed
  qed
qed

lemma generate_calls_once:
  "generate_calls (snd (generate L p w)) = generate_calls w + 1"
  by (simp add: generate_def generate_attempt_calls)

subsection \<open>Retries of \<^verbatim>\<open>generate\<close>\<close>

text \<open>
  Claim C2 says that \<^verbatim>\<open>generate\<close> retries on HTTP 429 only and lets every other HTTP
  failure reach the caller at once. The decorator retries on every \<^verbatim>\<open>HTTPError\<close>: when
  the service answers the first request of a call with status 500, the call sleeps and
  posts a second request instead of raising.
\<close>

theorem generate_retries_after_500:
  assumes "service L (posts w) False prompt = Returns r" and "status_code r = 500"
  shows "posts w + 2 \<le> posts (snd (generate L prompt w))"
proof -
  let ?w2 = "time_sleep 2 (w\<lparr>generate_calls := generate_calls w + 1, posts := posts w + 1\<rparr>)"
  have "generate L prompt w = generate_attempt L prompt 2 ?w2"
    unfolding generate_def using assms
    by (subst generate_attempt.simps)
       (simp add: generate_body_def requests_post_def raise_for_status_def
          retry_if_exception_type_def stop_after_attempt_def wait_exponential_def time_sleep_def
          numeral_2_eq_2)
  moreover have "posts ?w2 + 1 \<le> posts (snd (generate_attempt L prompt 2 ?w2))"
    by (rule generate_attempt_posts)
  ultimately show ?thesis by (simp add: time_sleep_def)
qed

text \<open>
  On the service that fails once with 500, the call returns the body of the second
  answer: the failure never reaches the caller.
\<close>

theorem generate_retries_after_500_witness:
  "generate (example_llm failing_once) [] initial_world
   = (Inr (ascii ''ok''), \<lparr>posts = 2, sleeps = [2], generate_calls = 1\<rparr>)"
  using generate_retries_after_500
    [of "example_llm failing_once" initial_world "[]" "error_response 500"]
  by (simp add: generate_def generate_attempt.simps generate_body_def requests_post_def
      raise_for_status_def retry_if_exception_type_def stop_after_attempt_def
      wait_exponential_def time_sleep_def example_llm_def failing_once_def error_response_def
      ok_response_def initial_world_def)

subsection \<open>Exhausted retries of \<^verbatim>\<open>stream_generate\<close>\<close>

lemma stream_attempts_all_429:
  assumes "\<And>n. \<exists>r. service L n True prompt = Returns r \<and> status_code r = 429"
  shows "\<exists>w1. stream_attempts L prompt m a None w = ([], Returned, w1)"
proof (induction "nat (m - int a)" arbitrary: a w)
  case 0
  then show ?case by (subst stream_attempts.simps) simp
next
  case (Suc k)
  then have lt: "int a < m" by linarith
  obtain r where r: "service L (posts w) True prompt = Returns r" "status_code r = 429"
    using assms by blast
  have "k = nat (m - int (a + 1))" using Suc.hyps(2) by linarith
  from Suc.hyps(1) [OF this]
  obtain w1 where "stream_attempts L prompt m (a + 1) None
      (time_sleep (min (2 ^ a) 30) (w\<lparr>posts := posts w + 1\<rparr>)) = ([], Returned, w1)"
    by blast
  then show ?case using lt r
    by (subst stream_attempts.simps) (simp add: requests_post_def)
qed

text \<open>
  Claim C3 says that \<^verbatim>\<open>stream_generate\<close> raises the last error when every attempt ends
  in a 429 response. The branch for a 429 response continues the loop without assigning
  \<^verbatim>\<open>last_error\<close>, so after the last attempt the generator ends normally: for every
  number of attempts it yields nothing and raises nothing.
\<close>

theorem stream_generate_rate_limited_silent:
  assumes "\<forall>n. \<exists>r. service L n True prompt = Returns r \<and> status_code r = 429"
  shows "fst (stream_generate L prompt m w) = [] \<and>
         fst (snd (stream_generate L prompt m w)) = Returned"
proof -
  obtain w1 where "stream_attempts L prompt m 0 None w = ([], Returned, w1)"
    using stream_attempts_all_429 [of L prompt m 0 w] assms by blast
  then show ?thesis by (simp add: stream_generate_def)
qed

theorem stream_generate_rate_limited_witness:
  "stream_generate (example_llm rate_limited) [] 5 initial_world
   = ([], Returned, \<lparr>posts = 5, sleeps = [1, 2, 4, 8, 16], generate_calls = 0\<rparr>)"
  using stream_generate_rate_limited_silent [of "example_llm rate_limited" "[]" 5 initial_world]
  by (simp add: stream_generate_def stream_attempts.simps requests_post_def time_sleep_def
      example_llm_def rate_limited_def error_response_def initial_world_def)

subsection \<open>The fallback of \<^verbatim>\<open>stream_generate\<close>\<close>

lemma fallback_calls:
  "generate_calls (snd (snd (fallback L p w))) = generate_calls w + 1"
  using generate_calls_once [of L p w]
  by (auto simp: fallback_def split: prod.splits sum.splits)

lemma stream_lines_calls:
  "generate_calls (snd (snd (stream_lines L p ls n w))) \<le> generate_calls w + 1"
proof (induction ls arbitrary: n)
  case Nil
  then show ?case by (simp add: fallback_calls)
next
  case (Cons l ls)
  show ?case
  proof (cases "classify L l")
    case Skip
    then show ?thesis using Cons.IH [of n] by simp
  next
    case Done
    then show ?thesis by (simp add: fallback_calls)
  next
    case (Fragment c)
    then show ?thesis using Cons.IH [of "n + 1"] by (auto split: prod.splits)
  next
    case (Fail e)
    then show ?thesis by simp
  qed
qed

lemma stream_attempts_calls:
  "generate_calls (snd (snd (stream_attempts L p m a le w))) \<le> generate_calls w + 1"
proof (induction L p m a le w rule: stream_attempts.induct)
  case (1 L prompt max_retries attempt last_error w)
  show ?case
  proof (cases "int attempt < max_retries")
    case False
    then show ?thesis
      by (subst stream_attempts.simps) (simp split: option.splits)
  next
    case True
    obtain out w1 where post: "requests_post (service L) True prompt w = (out, w1)"
      by (cases "requests_post (service L) True prompt w")
    have w1: "generate_calls w1 = generate_calls w"
      using post by (auto simp: requests_post_def)
    show ?thesis
    proof (cases out)
      case (Raises e)
      show ?thesis
      proof (cases "e = HTTPError 429")
        case limited: True
        have "generate_calls (snd (snd (stream_attempts L prompt max_retries (attempt + 1) (Some e)
                (time_sleep (min (2 ^ attempt) 30) w1))))
              \<le> generate_calls (time_sleep (min (2 ^ attempt) 30) w1) + 1"
          using "1.IH"(1) [OF True post [symmetric] Raises limited] .
        then show ?thesis using True post Raises limited w1
          by (subst stream_attempts.simps) (simp add: time_sleep_def)
      next
        case False
        then show ?thesis using True post Raises w1
          by (subst stream_attempts.simps) simp
      qed
    next
      case (Returns r)
      show ?thesis
      proof (cases "status_code r = 429")
        case limited: True
        have "generate_calls (snd (snd (stream_attempts L prompt max_retries (attempt + 1) last_error
                (time_sleep (min (2 ^ attempt) 30) w1))))
              \<le> generate_calls (time_sleep (min (2 ^ attempt) 30) w1) + 1"
          using "1.IH"(2) [OF True post [symmetric] Returns limited] .
        then show ?thesis using True post Returns limited w1
          by (subst stream_attempts.simps) (simp add: time_sleep_def)
      next
        case False
        then show ?thesis
          using True post Returns w1 stream_lines_calls [of L prompt "iter_lines r" 0 w1]
          by (subst stream_attempts.simps) (simp split: option.splits)
      qed
    qed
  qed
qed

lemma stream_lines_silent:
  "list_all (\<lambda>l. classify L l = Skip) (takeWhile (\<lambda>l. classify L l \<noteq> Done) ls) \<Longrightarrow>
   stream_lines L p ls 0 w = fallback L p w"
  by (induction ls) (auto split: line_action.splits)

text \<open>
  Claim C5 says that a stream which reaches its end (the end marker, or the last line)
  with no fragment yielded falls back once to \<^verbatim>\<open>generate\<close> and yields its result as a
  single fragment. As stated it fails where \<^verbatim>\<open>generate\<close> returns the empty text: the
  fallback is called once and the stream yields nothing.
\<close>

theorem stream_fallback_empty_counterexample:
  "stream_generate (example_llm (silent_stream [])) [] 5 initial_world
   = ([], Returned, \<lparr>posts = 2, sleeps = [], generate_calls = 1\<rparr>)"
  by (simp add: stream_generate_def stream_attempts.simps requests_post_def raise_for_status_def
      classify_def strip_def is_space_def ascii_def fallback_def generate_def
      generate_attempt.simps generate_body_def example_llm_def silent_stream_def
      ok_response_def initial_world_def)

text \<open>
  Claim C5 as amended. No run of \<^verbatim>\<open>stream_generate\<close> calls \<^verbatim>\<open>generate\<close> more than once.
  An attempt that receives a response other than an error, whose lines up to the end
  marker (or up to the last line) yield no fragment and raise nothing, calls \<^verbatim>\<open>generate\<close>
  exactly once and ends the stream normally: it yields the result as a single fragment
  when \<^verbatim>\<open>generate\<close> returns a text that is not empty, and yields nothing when
  \<^verbatim>\<open>generate\<close> returns the empty text or raises.
\<close>

theorem stream_fallback_exactly_once:
  "generate_calls (snd (snd (stream_generate L prompt m w))) \<le> generate_calls w + 1 \<and>
   (int a < m \<and> service L (posts w) True prompt = Returns r \<and> status_code r \<noteq> 429 \<and>
    raise_for_status r = None \<and>
    list_all (\<lambda>l. classify L l = Skip) (takeWhile (\<lambda>l. classify L l \<noteq> Done) (iter_lines r)) \<longrightarrow>
      stream_attempts L prompt m a last_error w
        = (case generate L prompt (w\<lparr>posts := posts w + 1\<rparr>) of
             (Inr s, w2) \<Rightarrow> (if s \<noteq> [] then [s] else [], Returned, w2)
           | (Inl e, w2) \<Rightarrow> ([], Returned, w2)) \<and>
      generate_calls (snd (snd (stream_attempts L prompt m a last_error w)))
        = generate_calls w + 1)"
proof (intro conjI impI)
  show "generate_calls (snd (snd (stream_generate L prompt m w))) \<le> generate_calls w + 1"
    using stream_attempts_calls [of L prompt m 0 None w] by (simp add: stream_generate_def)
next
  assume h: "int a < m \<and> service L (posts w) True prompt = Returns r \<and> status_code r \<noteq> 429 \<and>
    raise_for_status r = None \<and>
    list_all (\<lambda>l. classify L l = Skip) (takeWhile (\<lambda>l. classify L l \<noteq> Done) (iter_lines r))"
  let ?w1 = "w\<lparr>posts := posts w + 1\<rparr>"
  have run: "stream_attempts L prompt m a last_error w = fallback L prompt ?w1"
    using h stream_lines_silent [of L "iter_lines r" prompt ?w1]
    by (subst stream_attempts.simps) (simp add: requests_post_def)
  show "stream_attempts L prompt m a last_error w
        = (case generate L prompt ?w1 of
             (Inr s, w2) \<Rightarrow> (if s \<noteq> [] then [s] else [], Returned, w2)
           | (Inl e, w2) \<Rightarrow> ([], Returned, w2))"
    unfolding run by (simp add: fallback_def split: prod.splits sum.splits)
  show "generate_calls (snd (snd (stream_attempts L prompt m a last_error w)))
        = generate_calls w + 1"
    unfolding run by (simp add: fallback_calls)
qed

theorem stream_fallback_exactly_once_witness:
  "stream_generate (example_llm (silent_stream (ascii ''ok''))) [] 5 initial_world
   = ([ascii ''ok''], Returned, \<lparr>posts = 2, sleeps = [], generate_calls = 1\<rparr>)"
  using stream_fallback_exactly_once
    [of "example_llm (silent_stream (ascii ''ok''))" "[]" 5 initial_world 0
        "ok_response [] [ascii ''data: [DONE]'']" None]
  by (simp add: stream_generate_def stream_attempts.simps requests_post_def raise_for_status_def
      classify_def strip_def is_space_def ascii_def fallback_def generate_def
      generate_attempt.simps generate_body_def example_llm_def silent_stream_def
      ok_response_def initial_world_def)

section \<open>Properties of the pipeline\<close>

lemma sentinels_differ:
  "no_information_available \<noteq> [] \<and> no_information_available \<noteq> no_relevant_information"
  by (simp add: no_information_available_def no_relevant_information_def)

text \<open>
  Claim C1 says that a query whose retrieval yields nothing returns the fixed answer
  without calling the generation client. \<^verbatim>\<open>format_context\<close> does return its fixed
  string for no results, but \<^verbatim>\<open>query\<close> compares the context with another string, so
  the comparison fails and the client is called: on the empty store, whenever the
  embedder returns and the template renders, \<^verbatim>\<open>query\<close> calls \<^verbatim>\<open>generate\<close> once.
\<close>

theorem query_empty_store_calls_generate:
  assumes "embed_query (retriever P) question = Inr v"
    and "str_format (llm_client P) (system_prompt P) no_information_available question = Inr prompt"
  shows "format_context (lib (retriever P)) [] = Inr no_information_available \<and>
         no_information_available \<noteq> no_relevant_information \<and>
         generate_calls (snd (query P question rc (FAISSVectorStore n, h) w)) = generate_calls w + 1"
proof -
  have ctx: "retrieve_and_format (retriever P) question 5 (FAISSVectorStore n, h)
      = Inr (no_information_available, [])"
    using assms(1)
    by (simp add: retrieve_and_format_def retrieve_def search_def FAISSVectorStore_def
        IndexFlatIP_def ntotal_def format_context_def)
  obtain r w1 where g: "generate (llm_client P) prompt w = (r, w1)"
    by (cases "generate (llm_client P) prompt w")
  have w1: "generate_calls w1 = generate_calls w + 1"
    using generate_calls_once [of "llm_client P" prompt w] g by simp
  have "generate_calls (snd (query P question rc (FAISSVectorStore n, h) w)) = generate_calls w + 1"
    using ctx assms(2) g w1 sentinels_differ
    by (cases r) (simp_all add: query_def answer_question_def)
  then show ?thesis
    using sentinels_differ by (simp add: format_context_def)
qed

text \<open>
  On the empty store of dimension 768 the answer of the query is the text the service
  sent, not the fixed answer, and one request was posted.
\<close>

theorem query_empty_store_witness:
  "query (example_pipeline (\<lambda>n stream prompt. Returns (ok_response (ascii ''ok'') []))) [113] False
     (FAISSVectorStore 768, (\<lambda>a. Map.empty)) initial_world
   = (Inr \<lparr>resp_question = [113], resp_answer = ascii ''ok'', resp_context = None,
           resp_sources = None\<rparr>,
      \<lparr>posts = 1, sleeps = [], generate_calls = 1\<rparr>)"
  using query_empty_store_calls_generate
    [of "example_pipeline (\<lambda>n stream prompt. Returns (ok_response (ascii ''ok'') []))" "[113]" "[]"
        "no_information_available @ [113]" False 768 "\<lambda>a. Map.empty" initial_world]
  by (simp add: example_pipeline_def example_llm_def ok_response_def initial_world_def
      query_def retrieve_and_format_def retrieve_def search_def FAISSVectorStore_def
      IndexFlatIP_def ntotal_def format_context_def answer_question_def generate_def
      generate_attempt.simps generate_body_def requests_post_def raise_for_status_def
      no_information_available_def no_relevant_information_def)

section \<open>Properties of the vector store\<close>

lemma keys_differ: "ascii ''id'' \<noteq> ascii ''text''"
  by (simp add: ascii_def)

lemma store_entries_store:
  "store_entries s i pairs (st, h) = (st', h') \<Longrightarrow>
   texts st' = texts st @ map fst pairs \<and>
   metadata st' = metadata st @ map snd pairs \<and>
   index st' = index st \<and> dimension st' = dimension st \<and>
   (\<forall>j < length pairs. id_to_metadata st' (s + i + j) = Some (snd (pairs ! j))) \<and>
   (\<forall>k. k < s + i \<or> s + i + length pairs \<le> k \<longrightarrow> id_to_metadata st' k = id_to_metadata st k)"
proof (induction pairs arbitrary: i st h)
  case Nil
  then show ?case by auto
next
  case (Cons p pairs)
  obtain t m where p: "p = (t, m)" by (cases p)
  let ?st1 = "st\<lparr>texts := texts st @ [t], metadata := metadata st @ [m],
                   id_to_metadata := (id_to_metadata st)(s + i \<mapsto> m)\<rparr>"
  let ?h2 = "(h(m := (h m)(ascii ''id'' \<mapsto> VInt (int (s + i)))))
              (m := ((h(m := (h m)(ascii ''id'' \<mapsto> VInt (int (s + i))))) m)(ascii ''text'' \<mapsto> VStr t))"
  have run: "store_entries s (i + 1) pairs (?st1, ?h2) = (st', h')"
    using Cons.prems p by (simp add: Let_def)
  note IH = Cons.IH [OF run]
  have ids: "\<forall>j < length (p # pairs). id_to_metadata st' (s + i + j) = Some (snd ((p # pairs) ! j))"
  proof (intro allI impI)
    fix j assume j: "j < length (p # pairs)"
    show "id_to_metadata st' (s + i + j) = Some (snd ((p # pairs) ! j))"
    proof (cases j)
      case 0
      have "id_to_metadata st' (s + i) = id_to_metadata ?st1 (s + i)"
        using IH by simp
      then show ?thesis using 0 p by simp
    next
      case (Suc j')
      then have "j' < length pairs" using j by simp
      then have "id_to_metadata st' (s + (i + 1) + j') = Some (snd (pairs ! j'))"
        using IH by blast
      then show ?thesis using Suc by simp
    qed
  qed
  have rest: "\<forall>k. k < s + i \<or> s + i + length (p # pairs) \<le> k \<longrightarrow>
      id_to_metadata st' k = id_to_metadata st k"
  proof (intro allI impI)
    fix k assume k: "k < s + i \<or> s + i + length (p # pairs) \<le> k"
    then have "k < s + (i + 1) \<or> s + (i + 1) + length pairs \<le> k" by auto
    then have "id_to_metadata st' k = id_to_metadata ?st1 k" using IH by blast
    moreover have "k \<noteq> s + i" using k by auto
    ultimately show "id_to_metadata st' k = id_to_metadata st k" by simp
  qed
  show ?case using IH ids rest p by simp
qed

lemma store_entries_frame:
  "a \<notin> snd ` set pairs \<Longrightarrow> snd (store_entries s i pairs (st, h)) a = h a"
proof (induction pairs arbitrary: i st h)
  case Nil
  then show ?case by simp
next
  case (Cons p pairs)
  obtain t m where p: "p = (t, m)" by (cases p)
  then show ?case using Cons by (auto simp: Let_def)
qed

lemma store_entries_heap:
  "j < length pairs \<Longrightarrow>
   (\<forall>j'. j < j' \<and> j' < length pairs \<longrightarrow> snd (pairs ! j') \<noteq> snd (pairs ! j)) \<Longrightarrow>
   snd (store_entries s i pairs (st, h)) (snd (pairs ! j))
     = (h (snd (pairs ! j)))(ascii ''id'' \<mapsto> VInt (int (s + i + j)), ascii ''text'' \<mapsto> VStr (fst (pairs ! j)))"
proof (induction pairs arbitrary: i j st h)
  case Nil
  then show ?case by simp
next
  case (Cons p pairs)
  obtain t m where p: "p = (t, m)" by (cases p)
  let ?st1 = "st\<lparr>texts := texts st @ [t], metadata := metadata st @ [m],
                   id_to_metadata := (id_to_metadata st)(s + i \<mapsto> m)\<rparr>"
  let ?h2 = "(h(m := (h m)(ascii ''id'' \<mapsto> VInt (int (s + i)))))
              (m := ((h(m := (h m)(ascii ''id'' \<mapsto> VInt (int (s + i))))) m)(ascii ''text'' \<mapsto> VStr t))"
  have step: "store_entries s i (p # pairs) (st, h) = store_entries s (i + 1) pairs (?st1, ?h2)"
    using p by (simp add: Let_def)
  show ?case
  proof (cases j)
    case 0
    have "m \<notin> snd ` set pairs"
    proof
      assume "m \<in> snd ` set pairs"
      then obtain q where "q \<in> set pairs" "snd q = m" by auto
      then obtain k where "k < length pairs" "pairs ! k = q" by (auto simp: in_set_conv_nth)
      then show False using Cons.prems(2) [rule_format, of "Suc k"] 0 p \<open>snd q = m\<close> by auto
    qed
    then have "snd (store_entries s (i + 1) pairs (?st1, ?h2)) m = ?h2 m"
      by (rule store_entries_frame)
    then show ?thesis using 0 p step by (auto simp: fun_eq_iff)
  next
    case (Suc j')
    have j': "j' < length pairs" using Cons.prems(1) Suc by simp
    have last: "\<forall>k. j' < k \<and> k < length pairs \<longrightarrow> snd (pairs ! k) \<noteq> snd (pairs ! j')"
    proof (intro allI impI)
      fix k assume "j' < k \<and> k < length pairs"
      then show "snd (pairs ! k) \<noteq> snd (pairs ! j')"
        using Cons.prems(2) [rule_format, of "Suc k"] Suc by simp
    qed
    have "snd (store_entries s (i + 1) pairs (?st1, ?h2)) (snd (pairs ! j'))
       = (?h2 (snd (pairs ! j')))(ascii ''id'' \<mapsto> VInt (int (s + (i + 1) + j')),
            ascii ''text'' \<mapsto> VStr (fst (pairs ! j')))"
      by (rule Cons.IH [OF j' last])
    then show ?thesis using Suc step keys_differ
      by (auto simp: fun_eq_iff)
  qed
qed


lemma index_add_ntotal:
  "index_add ix x = Inr ix' \<Longrightarrow> ntotal ix' = ntotal ix + length x \<and> ix_d ix' = ix_d ix"
  by (auto simp: index_add_def ntotal_def split: if_splits)

lemma normalized_array_length:
  "normalized_array embeddings = Inr vectors \<Longrightarrow> length vectors = length embeddings"
  by (auto simp: normalized_array_def split: list.splits if_splits)

lemma add_vectors_error:
  "add_vectors embeddings txts metas (st, h) = (Some e, st', h') \<Longrightarrow> st' = st \<and> h' = h"
  by (auto simp: add_vectors_def Let_def split: if_splits sum.splits prod.splits)

lemma add_vectors_success:
  assumes "add_vectors embeddings txts metas (st, h) = (None, st', h')"
  shows "length embeddings = length metas \<and> length embeddings = length txts \<and>
         (\<exists>ix. ntotal ix = ntotal (index st) + length embeddings \<and>
               store_entries (ntotal (index st)) 0 (zip txts metas) (st\<lparr>index := ix\<rparr>, h) = (st', h'))"
  using assms
  by (auto simp: add_vectors_def Let_def split: if_splits sum.splits prod.splits
      dest!: index_add_ntotal normalized_array_length)

text \<open>
  Claim C7. When the three sequences do not all have the same length, \<^verbatim>\<open>add_vectors\<close>
  raises \<^verbatim>\<open>ValueError\<close> and leaves the store and the heap as they were; so does every
  other exception it raises. When it returns, the lengths agree, the texts and the
  references are appended in order, and the new entries have the ids from the size of
  the index before the call upwards, one after the other: \<^verbatim>\<open>id_to_metadata\<close> maps the
  \<open>i\<close>-th new id to the \<open>i\<close>-th reference and is unchanged on every other id.
\<close>

theorem add_vectors_validation:
  "(length embeddings \<noteq> length metas \<or> length embeddings \<noteq> length txts \<longrightarrow>
      add_vectors embeddings txts metas (st, h) = (Some ValueError, st, h)) \<and>
   (add_vectors embeddings txts metas (st, h) = (Some e, st', h') \<longrightarrow> st' = st \<and> h' = h) \<and>
   (add_vectors embeddings txts metas (st, h) = (None, st', h') \<longrightarrow>
      length embeddings = length txts \<and> length txts = length metas \<and>
      ntotal (index st') = ntotal (index st) + length metas \<and>
      texts st' = texts st @ txts \<and>
      metadata st' = metadata st @ metas \<and>
      (\<forall>k. id_to_metadata st' k =
         (if ntotal (index st) \<le> k \<and> k < ntotal (index st) + length metas
          then Some (metas ! (k - ntotal (index st))) else id_to_metadata st k)))"
proof (intro conjI impI)
  assume "length embeddings \<noteq> length metas \<or> length embeddings \<noteq> length txts"
  then show "add_vectors embeddings txts metas (st, h) = (Some ValueError, st, h)"
    by (simp add: add_vectors_def)
next
  assume "add_vectors embeddings txts metas (st, h) = (Some e, st', h')"
  then show "st' = st" and "h' = h" using add_vectors_error by blast+
next
  assume ok: "add_vectors embeddings txts metas (st, h) = (None, st', h')"
  from add_vectors_success [OF ok] obtain ix where
    len: "length embeddings = length metas" "length embeddings = length txts" and
    ix: "ntotal ix = ntotal (index st) + length embeddings" and
    run: "store_entries (ntotal (index st)) 0 (zip txts metas) (st\<lparr>index := ix\<rparr>, h) = (st', h')"
    by blast
  note facts = store_entries_store [OF run]
  show "length embeddings = length txts" "length txts = length metas" using len by simp_all
  show "ntotal (index st') = ntotal (index st) + length metas" using facts ix len by simp
  show "texts st' = texts st @ txts" using facts len by simp
  show "metadata st' = metadata st @ metas" using facts len by simp
  show "\<forall>k. id_to_metadata st' k =
         (if ntotal (index st) \<le> k \<and> k < ntotal (index st) + length metas
          then Some (metas ! (k - ntotal (index st))) else id_to_metadata st k)"
  proof
    fix k
    show "id_to_metadata st' k =
         (if ntotal (index st) \<le> k \<and> k < ntotal (index st) + length metas
          then Some (metas ! (k - ntotal (index st))) else id_to_metadata st k)"
    proof (cases "ntotal (index st) \<le> k \<and> k < ntotal (index st) + length metas")
      case True
      define j where "j = k - ntotal (index st)"
      have "j < length metas" and kj: "ntotal (index st) + 0 + j = k"
        using True unfolding j_def by linarith+
      then have j: "j < length (zip txts metas)" using len by simp
      have "id_to_metadata st' (ntotal (index st) + 0 + j) = Some (snd (zip txts metas ! j))"
        using facts j by blast
      then have "id_to_metadata st' k = Some (metas ! j)"
        unfolding kj using j by simp
      then show ?thesis using True unfolding j_def by simp
    next
      case False
      then have "k < ntotal (index st) + 0 \<or> ntotal (index st) + 0 + length (zip txts metas) \<le> k"
        using len by auto
      then have "id_to_metadata st' k = id_to_metadata (st\<lparr>index := ix\<rparr>) k"
        using facts by blast
      then show ?thesis using False by auto
    qed
  qed
qed

text \<open>
  Claim C9. A call of \<^verbatim>\<open>add_vectors\<close> that returns has written into the caller's
  dictionaries: the dictionary a reference of the list points to is the one it was, with
  \<^verbatim>\<open>'id'\<close> set to the id of its position and \<^verbatim>\<open>'text'\<close> to the text of its position
  (of its last position, when the caller passes the same dictionary more than once). No
  other dictionary of the heap changes. The metadata list and \<^verbatim>\<open>id_to_metadata\<close> of
  the store hold the caller's references themselves, so they see these dictionaries and
  every later change to them.
\<close>

theorem add_vectors_aliases_metadata:
  assumes "add_vectors embeddings txts metas (st, h) = (None, st', h')"
  shows "(\<forall>i < length metas.
            (\<forall>j. i < j \<and> j < length metas \<longrightarrow> metas ! j \<noteq> metas ! i) \<longrightarrow>
            h' (metas ! i) = (h (metas ! i))(ascii ''id'' \<mapsto> VInt (int (ntotal (index st) + i)),
                                            ascii ''text'' \<mapsto> VStr (txts ! i))) \<and>
         (\<forall>a. a \<notin> set metas \<longrightarrow> h' a = h a) \<and>
         metadata st' = metadata st @ metas \<and>
         (\<forall>i < length metas. id_to_metadata st' (ntotal (index st) + i) = Some (metas ! i))"
proof -
  from add_vectors_success [OF assms] obtain ix where
    len: "length embeddings = length metas" "length embeddings = length txts" and
    run: "store_entries (ntotal (index st)) 0 (zip txts metas) (st\<lparr>index := ix\<rparr>, h) = (st', h')"
    by blast
  have len2: "length txts = length metas" using len by simp
  note facts = store_entries_store [OF run]
  have heap: "h' = snd (store_entries (ntotal (index st)) 0 (zip txts metas) (st\<lparr>index := ix\<rparr>, h))"
    using run by simp
  have a: "\<forall>i < length metas.
            (\<forall>j. i < j \<and> j < length metas \<longrightarrow> metas ! j \<noteq> metas ! i) \<longrightarrow>
            h' (metas ! i) = (h (metas ! i))(ascii ''id'' \<mapsto> VInt (int (ntotal (index st) + i)),
                                            ascii ''text'' \<mapsto> VStr (txts ! i))"
  proof (intro allI impI)
    fix i assume i: "i < length metas"
      and last: "\<forall>j. i < j \<and> j < length metas \<longrightarrow> metas ! j \<noteq> metas ! i"
    have i': "i < length (zip txts metas)" using i len2 by simp
    have last': "\<forall>j'. i < j' \<and> j' < length (zip txts metas) \<longrightarrow>
        snd (zip txts metas ! j') \<noteq> snd (zip txts metas ! i)"
      using last i len2 by simp
    show "h' (metas ! i) = (h (metas ! i))(ascii ''id'' \<mapsto> VInt (int (ntotal (index st) + i)),
                                            ascii ''text'' \<mapsto> VStr (txts ! i))"
      using store_entries_heap [OF i' last', of "ntotal (index st)" 0 "st\<lparr>index := ix\<rparr>" h]
        heap i len2 by simp
  qed
  have b: "\<forall>a. a \<notin> set metas \<longrightarrow> h' a = h a"
  proof (intro allI impI)
    fix a assume "a \<notin> set metas"
    then have "a \<notin> snd ` set (zip txts metas)" using len2 by (auto dest: set_zip_rightD)
    then show "h' a = h a" unfolding heap by (rule store_entries_frame)
  qed
  have c: "metadata st' = metadata st @ metas" using facts len2 by simp
  have d: "\<forall>i < length metas. id_to_metadata st' (ntotal (index st) + i) = Some (metas ! i)"
  proof (intro allI impI)
    fix i assume "i < length metas"
    then have i: "i < length (zip txts metas)" using len2 by simp
    then have "id_to_metadata st' (ntotal (index st) + 0 + i) = Some (snd (zip txts metas ! i))"
      using facts by blast
    then show "id_to_metadata st' (ntotal (index st) + i) = Some (metas ! i)"
      using i by simp
  qed
  show ?thesis using a b c d by blast
qed

lemma consistent_init: "consistent (FAISSVectorStore n)"
  by (simp add: consistent_def FAISSVectorStore_def IndexFlatIP_def ntotal_def)

lemma consistent_add_vectors:
  assumes "consistent st" and "add_vectors embeddings txts metas (st, h) = (r, st', h')"
  shows "consistent st'"
proof (cases r)
  case None
  from add_vectors_success [OF assms(2) [unfolded None]] obtain ix where
    len: "length embeddings = length metas" "length embeddings = length txts" and
    ix: "ntotal ix = ntotal (index st) + length embeddings" and
    run: "store_entries (ntotal (index st)) 0 (zip txts metas) (st\<lparr>index := ix\<rparr>, h) = (st', h')"
    by blast
  show ?thesis using store_entries_store [OF run] ix len assms(1)
    by (simp add: consistent_def)
next
  case (Some e)
  then show ?thesis using add_vectors_error assms by blast
qed

text \<open>
  Claim C4 says that the store holds as many vectors as texts as metadata records after
  every operation. The constructor establishes this and \<^verbatim>\<open>add_vectors\<close> keeps it (the
  two lemmas above), but \<^verbatim>\<open>clear\<close> does not assign \<^verbatim>\<open>self.texts\<close>: on a store that
  holds a text, it empties the index and the metadata list and keeps the texts.
\<close>

theorem clear_keeps_texts:
  "texts st \<noteq> [] \<Longrightarrow> texts (clear st) = texts st \<and> ntotal (index (clear st)) = 0 \<and>
     metadata (clear st) = [] \<and> \<not> consistent (clear st)"
  by (simp add: clear_def consistent_def IndexFlatIP_def ntotal_def)


lemma score_of_upd: "score_of (d(ascii ''score'' \<mapsto> VFloat x)) = x"
  by (simp add: score_of_def)

lemma gather_scores:
  "map score_of (gather st h hits)
     = map fst (filter (\<lambda>(score, idx). \<not> (idx < 0 \<or> idx \<ge> int (length (metadata st)))) hits)"
  by (induction hits) (auto simp: score_of_upd)

lemma gather_length: "length (gather st h hits) \<le> length hits"
  by (induction hits) (auto simp: le_SucI)

lemma index_search_hits:
  assumes "index_search ix q k = Inr hits" and "k \<le> int (ntotal ix)"
  shows "length hits = nat k \<and> sorted_wrt (\<lambda>a b. b \<le> a) (map fst hits)"
proof -
  let ?scored = "zip (map (inner_product q) (ix_xb ix)) (map int [0..<ntotal ix])"
  let ?ranked = "sort_key (\<lambda>(score, idx). - score) ?scored"
  have k: "0 < k" and hits: "hits = take (nat k) ?ranked @ replicate (nat k - length ?ranked) (lowest_score, - 1)"
    using assms(1) by (auto simp: index_search_def Let_def split: if_splits)
  have len: "length ?ranked = ntotal ix" by (simp add: ntotal_def)
  then have nopad: "nat k - length ?ranked = 0" using assms(2) by simp
  have "sorted (map (\<lambda>(score, idx). - score) ?ranked)" by (rule sorted_sort_key)
  then have "sorted_wrt (\<lambda>a b. b \<le> a) (map fst ?ranked)"
    by (simp add: sorted_wrt_map case_prod_beta sorted_map)
  then have "sorted_wrt (\<lambda>a b. b \<le> a) (map fst (take (nat k) ?ranked))"
    by (simp add: sorted_wrt_take take_map [symmetric])
  then show ?thesis using hits nopad len assms(2) k by simp
qed

lemma length_normalize_L2: "length (normalize_L2 v) = length v"
  by (simp add: normalize_L2_def Let_def)

text \<open>
  Claim C8. On an empty store \<^verbatim>\<open>search\<close> returns the empty list. For a positive \<open>k\<close> and
  a query of the dimension of the index it returns; and whenever it returns for \<open>k \<ge> 0\<close>,
  it returns at most \<open>min k ntotal\<close> results, in non-increasing order of score.
\<close>

theorem search_bounded_sorted:
  "(ntotal (index st) = 0 \<longrightarrow> search q k (st, h) = Inr []) \<and>
   (0 < k \<and> length q = ix_d (index st) \<longrightarrow> (\<exists>rs. search q k (st, h) = Inr rs)) \<and>
   (0 \<le> k \<and> search q k (st, h) = Inr rs \<longrightarrow>
      int (length rs) \<le> min k (int (ntotal (index st))) \<and>
      sorted_wrt (\<lambda>a b. score_of b \<le> score_of a) rs)"
proof (intro conjI impI)
  assume "ntotal (index st) = 0"
  then show "search q k (st, h) = Inr []" by (simp add: search_def)
next
  assume "0 < k \<and> length q = ix_d (index st)"
  then show "\<exists>rs. search q k (st, h) = Inr rs"
    by (auto simp: search_def index_search_def Let_def length_normalize_L2)
next
  assume a: "0 \<le> k \<and> search q k (st, h) = Inr rs"
  show "int (length rs) \<le> min k (int (ntotal (index st)))"
  proof (cases "ntotal (index st) = 0")
    case True
    then show ?thesis using a by (simp add: search_def)
  next
    case False
    let ?k = "min k (int (ntotal (index st)))"
    from a False obtain hits where
      hits: "index_search (index st) (normalize_L2 q) ?k = Inr hits" and rs: "rs = gather st h hits"
      by (auto simp: search_def Let_def split: sum.splits)
    have "length hits = nat ?k" using index_search_hits [OF hits] by simp
    moreover have "length rs \<le> length hits" unfolding rs by (rule gather_length)
    moreover have "0 \<le> ?k" using a by simp
    ultimately show ?thesis by linarith
  qed
  show "sorted_wrt (\<lambda>a b. score_of b \<le> score_of a) rs"
  proof (cases "ntotal (index st) = 0")
    case True
    then show ?thesis using a by (simp add: search_def)
  next
    case False
    let ?k = "min k (int (ntotal (index st)))"
    from a False obtain hits where
      hits: "index_search (index st) (normalize_L2 q) ?k = Inr hits" and rs: "rs = gather st h hits"
      by (auto simp: search_def Let_def split: sum.splits)
    have "sorted_wrt (\<lambda>a b. b \<le> a) (map fst hits)" using index_search_hits [OF hits] by simp
    then have "sorted_wrt (\<lambda>a b. b \<le> a) (map score_of rs)"
      unfolding rs gather_scores by (simp add: sorted_wrt_filter filter_map [symmetric] sorted_wrt_map)
    then show ?thesis by (simp add: sorted_wrt_map)
  qed
qed


lemma two_entries_store:
  "fst two_entries =
     \<lparr>dimension = 2, index = \<lparr>ix_d = 2, ix_xb = [[1, 0], [0, 1]]\<rparr>,
      texts = [ascii ''a'', ascii ''b''], metadata = [0, 1],
      id_to_metadata = [0 \<mapsto> 0, 1 \<mapsto> 1]\<rparr>"
  by (simp add: two_entries_def add_vectors_def normalized_array_def normalize_L2_def
      index_add_def FAISSVectorStore_def IndexFlatIP_def ntotal_def Let_def)

text \<open>The store after two entries were added satisfies the invariant; cleared, it does not.\<close>

theorem clear_keeps_texts_witness:
  "consistent (fst two_entries) \<and> texts (clear (fst two_entries)) = [ascii ''a'', ascii ''b''] \<and>
   ntotal (index (clear (fst two_entries))) = 0 \<and> \<not> consistent (clear (fst two_entries))"
  using clear_keeps_texts [of "fst two_entries"]
  by (simp add: two_entries_store consistent_def ntotal_def)

lemma two_entries_hits:
  "index_search (index (fst two_entries)) (normalize_L2 [1, 0]) (min 5 (int (ntotal (index (fst two_entries)))))
     = Inr [(1, 0), (0, 1)]"
  by (simp add: two_entries_store index_search_def normalize_L2_def inner_product_def ntotal_def
      Let_def upt_rec)

theorem search_bounded_sorted_witness:
  "\<exists>rs. search [1, 0] 5 two_entries = Inr rs \<and> int (length rs) \<le> min 5 2 \<and>
        sorted_wrt (\<lambda>a b. score_of b \<le> score_of a) rs \<and> map score_of rs = [1, 0]"
proof -
  have pair: "two_entries = (fst two_entries, snd two_entries)" by simp
  have n: "ntotal (index (fst two_entries)) = 2" and d: "ix_d (index (fst two_entries)) = 2"
    by (simp_all add: two_entries_store ntotal_def)
  note inst = search_bounded_sorted [of "fst two_entries" "[1, 0]" 5 "snd two_entries"]
  from inst d obtain rs where rs: "search [1, 0] 5 (fst two_entries, snd two_entries) = Inr rs"
    by auto
  from inst [of rs] rs n have bound: "int (length rs) \<le> min 5 2"
    and sorted: "sorted_wrt (\<lambda>a b. score_of b \<le> score_of a) rs"
    by simp_all
  have "search [1, 0] 5 (fst two_entries, snd two_entries)
      = Inr (gather (fst two_entries) (snd two_entries) [(1, 0), (0, 1)])"
    using n two_entries_hits by (simp add: search_def Let_def del: gather.simps prod.collapse)
  then have "rs = gather (fst two_entries) (snd two_entries) [(1, 0), (0, 1)]"
    using rs by (simp del: gather.simps prod.collapse)
  then have "map score_of rs = [1, 0]"
    by (simp add: two_entries_store score_of_upd)
  then show ?thesis using rs bound sorted pair by metis
qed


lemma two_entries_run:
  "add_vectors [[1, 0], [0, 1]] [ascii ''a'', ascii ''b''] [0, 1] (FAISSVectorStore 2, example_heap)
     = (None, fst two_entries, snd two_entries)"
  by (simp add: two_entries_def add_vectors_def normalized_array_def normalize_L2_def
      index_add_def FAISSVectorStore_def IndexFlatIP_def ntotal_def Let_def split: prod.splits)

theorem add_vectors_aliases_metadata_witness:
  "snd two_entries 0 = [ascii ''id'' \<mapsto> VInt 0, ascii ''text'' \<mapsto> VStr (ascii ''a'')] \<and>
   snd two_entries 1 = [ascii ''id'' \<mapsto> VInt 1, ascii ''text'' \<mapsto> VStr (ascii ''b'')] \<and>
   snd two_entries 2 = example_heap 2 \<and>
   metadata (fst two_entries) = [0, 1] \<and>
   id_to_metadata (fst two_entries) 0 = Some 0 \<and> id_to_metadata (fst two_entries) 1 = Some 1"
  using add_vectors_aliases_metadata [OF two_entries_run]
  by (simp add: All_less_Suc FAISSVectorStore_def IndexFlatIP_def ntotal_def example_heap_def)

theorem add_vectors_validation_witness:
  "add_vectors [[1, 0]] [] [0] (FAISSVectorStore 2, example_heap)
     = (Some ValueError, FAISSVectorStore 2, example_heap) \<and>
   (case add_vectors [[0, 2]] [ascii ''c''] [2] (fst two_entries, snd two_entries) of
      (r, st, h) \<Rightarrow>
        r = None \<and> texts st = [ascii ''a'', ascii ''b'', ascii ''c''] \<and> metadata st = [0, 1, 2] \<and>
        id_to_metadata st 2 = Some 2 \<and> id_to_metadata st 3 = None \<and> ntotal (index st) = 3)"
  using add_vectors_validation [of "[[1, 0]]" "[0]" "[]" "FAISSVectorStore 2" example_heap]
  by (simp add: two_entries_store add_vectors_def normalized_array_def normalize_L2_def
      index_add_def ntotal_def Let_def split: prod.splits)

section \<open>Properties of the text normalisation\<close>

lemma dropWhile_fixed: "ys \<noteq> [] \<Longrightarrow> \<not> P (hd ys) \<Longrightarrow> dropWhile P ys = ys"
  by (cases ys) auto

lemma strip_Nil: "strip [] = []"
  by (simp add: strip_def)

lemma strip_fixed:
  assumes "xs \<noteq> []" and "\<not> is_space (hd xs)" and "\<not> is_space (last xs)"
  shows "strip xs = xs"
proof -
  have 1: "dropWhile is_space xs = xs" using assms by (simp add: dropWhile_fixed)
  have "hd (rev xs) = last xs" using assms by (simp add: hd_rev)
  then have 2: "dropWhile is_space (rev xs) = rev xs" using assms by (simp add: dropWhile_fixed)
  show ?thesis by (simp add: strip_def 1 2)
qed

lemma strip_ends:
  assumes ne: "strip xs \<noteq> []"
  shows "\<not> is_space (hd (strip xs)) \<and> \<not> is_space (last (strip xs))"
proof -
  let ?a = "dropWhile is_space xs"
  let ?b = "dropWhile is_space (rev ?a)"
  have s: "strip xs = rev ?b" by (simp add: strip_def)
  have b: "?b \<noteq> []" using ne s by simp
  have hb: "\<not> is_space (hd ?b)" using b by (rule hd_dropWhile)
  have a: "?a \<noteq> []"
  proof
    assume e: "?a = []"
    have "?b = []" unfolding e by simp
    with b show False by simp
  qed
  have ha: "\<not> is_space (hd ?a)" using a by (rule hd_dropWhile)
  have "rev ?a = takeWhile is_space (rev ?a) @ ?b" by simp
  then have "last (rev ?a) = last ?b" using b by (metis last_appendR)
  moreover have "last (rev ?a) = hd ?a" using a by (simp add: last_rev)
  ultimately have "\<not> is_space (last ?b)" using ha by simp
  then show ?thesis using hb b s by (simp add: hd_rev last_rev)
qed

lemma strip_strip: "strip (strip xs) = strip xs"
proof (cases "strip xs = []")
  case True
  show ?thesis unfolding True by (rule strip_Nil)
next
  case False
  then show ?thesis using strip_ends [OF False] by (simp add: strip_fixed)
qed

lemma collapse_spaces_hd:
  "collapse_spaces (x # xs) \<noteq> [] \<and> hd (collapse_spaces (x # xs)) = x"
  by (induction xs arbitrary: x) auto

lemma collapse_spaces_single: "single_spaced (collapse_spaces xs)"
  unfolding single_spaced_def
proof (induction xs rule: collapse_spaces.induct)
  case (1 c d cs)
  then show ?case using collapse_spaces_hd [of d cs]
    by (auto simp: successively_Cons)
qed simp_all

lemma collapse_spaces_fixed: "single_spaced xs \<Longrightarrow> collapse_spaces xs = xs"
  unfolding single_spaced_def
  by (induction xs rule: collapse_spaces.induct) auto

lemma single_spaced_dropWhile: "single_spaced xs \<Longrightarrow> single_spaced (dropWhile P xs)"
  unfolding single_spaced_def
  by (metis successively_append_iff takeWhile_dropWhile_id)

lemma single_spaced_rev: "single_spaced (rev xs) = single_spaced xs"
proof -
  have eq: "(\<lambda>x y. y \<noteq> (32::nat) \<or> x \<noteq> (32::nat)) = (\<lambda>a b. a \<noteq> 32 \<or> b \<noteq> 32)"
    by (intro ext) (rule disj_commute)
  show ?thesis unfolding single_spaced_def successively_rev eq by (rule refl)
qed

lemma single_spaced_strip: "single_spaced xs \<Longrightarrow> single_spaced (strip xs)"
  by (simp add: strip_def single_spaced_rev single_spaced_dropWhile)

text \<open>
  Claim C10. \<^verbatim>\<open>normalize_arabic_text\<close> of the retriever is idempotent. The Unicode
  normalisation is a function of the Python library; the theorem takes of it that it is
  idempotent and that a string in normal form is still in normal form after runs of
  spaces were collapsed and white space was removed at both ends (every substring of a
  string in NFKC is in NFKC, and U+0020 combines with no character). The collapse and
  the strip of the function, and its guard for the empty string, do the rest.
\<close>

theorem normalize_arabic_text_idempotent:
  assumes "\<forall>t. nfkc (nfkc t) = nfkc t"
    and "\<forall>t. nfkc t = t \<longrightarrow> nfkc (strip (collapse_spaces t)) = strip (collapse_spaces t)"
  shows "normalize_arabic_text nfkc (normalize_arabic_text nfkc s) = normalize_arabic_text nfkc s"
proof (cases "s = [] \<or> strip (collapse_spaces (nfkc s)) = []")
  case True
  then show ?thesis by (auto simp: normalize_arabic_text_def)
next
  case False
  let ?r = "strip (collapse_spaces (nfkc s))"
  have fixed: "nfkc ?r = ?r" using assms by blast
  have "single_spaced ?r" by (simp add: single_spaced_strip collapse_spaces_single)
  then have "collapse_spaces ?r = ?r" by (rule collapse_spaces_fixed)
  then have "strip (collapse_spaces (nfkc ?r)) = ?r" by (simp add: fixed strip_strip)
  then show ?thesis using False by (simp add: normalize_arabic_text_def)
qed

lemma nbsp_to_space_fixed: "nbsp_to_space t = t \<longleftrightarrow> 160 \<notin> set t"
  unfolding nbsp_to_space_def by (induction t) auto

lemma set_collapse_spaces: "set (collapse_spaces xs) \<subseteq> set xs"
  by (induction xs rule: collapse_spaces.induct) auto

lemma set_strip: "set (strip xs) \<subseteq> set xs"
  by (auto simp: strip_def dest!: set_dropWhileD)

lemma nbsp_to_space_closed:
  "nbsp_to_space t = t \<Longrightarrow> nbsp_to_space (strip (collapse_spaces t)) = strip (collapse_spaces t)"
  using set_collapse_spaces [of t] set_strip [of "collapse_spaces t"]
  by (auto simp: nbsp_to_space_fixed)

lemma nbsp_to_space_idem: "nbsp_to_space (nbsp_to_space t) = nbsp_to_space t"
  by (simp add: nbsp_to_space_def)

theorem normalize_arabic_text_idempotent_witness:
  "normalize_arabic_text nbsp_to_space [32, 97, 160, 32, 98, 32] = [97, 32, 98] \<and>
   normalize_arabic_text nbsp_to_space (normalize_arabic_text nbsp_to_space [32, 97, 160, 32, 98, 32])
     = normalize_arabic_text nbsp_to_space [32, 97, 160, 32, 98, 32]"
proof -
  have "normalize_arabic_text nbsp_to_space [32, 97, 160, 32, 98, 32] = [97, 32, 98]"
    by (simp add: normalize_arabic_text_def nbsp_to_space_def strip_def is_space_def)
  moreover have "normalize_arabic_text nbsp_to_space
      (normalize_arabic_text nbsp_to_space [32, 97, 160, 32, 98, 32])
     = normalize_arabic_text nbsp_to_space [32, 97, 160, 32, 98, 32]"
    using normalize_arabic_text_idempotent [of nbsp_to_space "[32, 97, 160, 32, 98, 32]"]
      nbsp_to_space_idem nbsp_to_space_closed by blast
  ultimately show ?thesis by simp
qed

section \<open>Properties of the chunker\<close>

lemma split_three:
  "split_into_sentences three_sentences =
     [[97, 97, 97, 97, 97, 97, 97, 97, 97, 97],
      [98, 98, 98, 98, 98, 98, 98, 98, 98, 98, 98, 98, 98, 98],
      [99, 99, 99, 99, 99, 99, 99, 99, 99, 99, 99, 99]]"
  by (simp add: split_into_sentences_def three_sentences_def replace_newlines_def
      is_terminator_def is_space_def strip_def)

text \<open>
  Claim C6 says that every chunk but the last has a trimmed length between
  \<^verbatim>\<open>min_chunk_size\<close> and \<^verbatim>\<open>chunk_size\<close>. With both set to 12 and no overlap, a text of
  three sentences of 10, 14 and 12 characters gives three chunks, one per sentence: the
  first is shorter than \<^verbatim>\<open>min_chunk_size\<close> and the second longer than \<^verbatim>\<open>chunk_size\<close>.
\<close>

theorem chunk_bounds_counterexample:
  "map (\<lambda>c. length (ch_text c))
     (chunk_text \<lparr>chunk_size = 12, overlap = 0, min_chunk_size = 12\<rparr> three_sentences (ascii ''doc''))
   = [10, 14, 12]"
  by (simp add: chunk_text_def split_three get_overlap_text_def)
     (simp add: three_sentences_def strip_def is_space_def)



lemma good_sentence_nonempty: "good_sentence s \<Longrightarrow> s \<noteq> []"
  by (auto simp: good_sentence_def)

lemma spaced_join: "sents \<noteq> [] \<Longrightarrow> spaced sents = 32 # join_spaces sents"
  by (induction sents rule: join_spaces.induct) (simp_all add: spaced_def)

lemma join_spaces_good:
  "sents \<noteq> [] \<Longrightarrow> list_all good_sentence sents \<Longrightarrow> good_sentence (join_spaces sents)"
proof (induction sents rule: join_spaces.induct)
  case 1
  then show ?case by simp
next
  case (2 s)
  then show ?case by simp
next
  case (3 s t ss)
  then have s: "good_sentence s" and rest: "good_sentence (join_spaces (t # ss))" by simp_all
  have ne: "s \<noteq> []" "join_spaces (t # ss) \<noteq> []"
    using s rest by (simp_all add: good_sentence_nonempty)
  show ?case using s rest ne by (simp add: good_sentence_def)
qed

lemma strip_leading_space: "strip (32 # xs) = strip xs"
  by (simp add: strip_def is_space_def)

lemma good_sentence_strip: "good_sentence s \<Longrightarrow> strip s = s"
  by (rule strip_fixed) (auto simp: good_sentence_def)

lemma closed_text:
  assumes "sents \<noteq> []" and "list_all good_sentence sents" and "strip pre = pre"
    and "cur = pre @ spaced sents"
  shows "strip cur = (if pre = [] then join_spaces sents else cur) \<and>
         length (join_spaces sents) \<le> length (strip cur) \<and> 10 \<le> length (strip cur)"
proof -
  let ?j = "join_spaces sents"
  have j: "good_sentence ?j" using assms(1,2) by (rule join_spaces_good)
  have cur: "cur = pre @ 32 # ?j" using assms(1,4) by (simp add: spaced_join)
  show ?thesis
  proof (cases "pre = []")
    case True
    then have "strip cur = ?j" using cur j by (simp add: strip_leading_space good_sentence_strip)
    then show ?thesis using True j by (simp add: good_sentence_def)
  next
    case False
    then have "strip pre \<noteq> []" using assms(3) by simp
    then have "\<not> is_space (hd pre)" using strip_ends [of pre] assms(3) by simp
    moreover have "last cur = last ?j" using cur j by (simp add: good_sentence_nonempty)
    ultimately have "strip cur = cur"
      using False cur j by (intro strip_fixed) (simp_all add: good_sentence_def)
    then show ?thesis using False cur j by (simp add: good_sentence_def)
  qed
qed

lemma closed_chunk_ok:
  assumes "sents \<noteq> []" and "list_all good_sentence sents" and "strip pre = pre"
    and "cur = pre @ spaced sents" and "2 \<le> length sents \<longrightarrow> int (length cur) \<le> chunk_size C + 1"
  shows "chunk_ok C \<lparr>ch_text = strip cur, ch_source = src, ch_chunk_id = n, ch_sentences = sents\<rparr>"
proof -
  note t = closed_text [OF assms(1-4)]
  have len: "length cur = length pre + 1 + length (join_spaces sents)"
    using assms(1,4) by (simp add: spaced_join)
  have bound: "strip cur = join_spaces sents \<and> 2 \<le> length sents \<longrightarrow>
      int (length (strip cur)) \<le> chunk_size C"
  proof (cases "pre = []")
    case True
    then show ?thesis using t len assms(5) by auto
  next
    case False
    then have "strip cur = cur" using t by simp
    then have "length (strip cur) \<noteq> length (join_spaces sents)" using len by simp
    then show ?thesis by auto
  qed
  have "10 \<le> length (strip cur)" using t by blast
  moreover have "strip (strip cur) = strip cur" by (rule strip_strip)
  ultimately show ?thesis using bound by (simp add: chunk_ok_def)
qed

lemma state_ok_step:
  assumes "state_ok C (chunks, cur, sents)" and "good_sentence s"
  shows "state_ok C (chunk_loop C src [s] (chunks, cur, sents))"
proof (cases "int (length cur) + int (length s) > chunk_size C \<and> cur \<noteq> []")
  case True
  then have cur: "cur \<noteq> []" by simp
  from assms(1) cur have "list_all (chunk_ok C) chunks \<and> sents \<noteq> [] \<and>
      list_all good_sentence sents \<and> (\<exists>pre. strip pre = pre \<and> cur = pre @ spaced sents) \<and>
      (2 \<le> length sents \<longrightarrow> int (length cur) \<le> chunk_size C + 1)"
    unfolding state_ok_def by simp
  then obtain pre where
    inv: "list_all (chunk_ok C) chunks" "sents \<noteq> []" "list_all good_sentence sents"
      "strip pre = pre" "cur = pre @ spaced sents"
      "2 \<le> length sents \<longrightarrow> int (length cur) \<le> chunk_size C + 1"
    by blast
  have c: "chunk_ok C \<lparr>ch_text = strip cur, ch_source = src, ch_chunk_id = length chunks,
      ch_sentences = sents\<rparr>"
    using inv(2-6) by (rule closed_chunk_ok)
  have seed: "strip (get_overlap_text C sents) = get_overlap_text C sents"
    by (simp add: get_overlap_text_def strip_strip)
  have "get_overlap_text C sents @ [32] @ s = get_overlap_text C sents @ spaced [s]"
    by (simp add: spaced_def)
  then have "\<exists>pre. strip pre = pre \<and> get_overlap_text C sents @ [32] @ s = pre @ spaced [s]"
    using seed by blast
  then show ?thesis using True inv(1) c assms(2)
    by (simp add: state_ok_def)
next
  case False
  show ?thesis
  proof (cases "cur = []")
    case True
    then have "sents = []" using assms(1) by (auto simp: state_ok_def spaced_def)
    moreover have "\<exists>pre. strip pre = pre \<and> [32] @ s = pre @ spaced [s]"
      using strip_Nil by (intro exI [of _ "[]"]) (simp add: spaced_def)
    ultimately show ?thesis using True False assms
      by (simp add: state_ok_def)
  next
    case nonempty: False
    from assms(1) nonempty have "list_all (chunk_ok C) chunks \<and> sents \<noteq> [] \<and>
        list_all good_sentence sents \<and> (\<exists>pre. strip pre = pre \<and> cur = pre @ spaced sents)"
      unfolding state_ok_def by simp
    then obtain pre where
      inv: "list_all (chunk_ok C) chunks" "sents \<noteq> []" "list_all good_sentence sents"
        "strip pre = pre" "cur = pre @ spaced sents"
      by blast
    have fits: "int (length cur) + int (length s) \<le> chunk_size C" using False nonempty by simp
    have "cur @ [32] @ s = pre @ spaced (sents @ [s])" using inv(5) by (simp add: spaced_def)
    then have "\<exists>pre. strip pre = pre \<and> cur @ [32] @ s = pre @ spaced (sents @ [s])"
      using inv(4) by blast
    then show ?thesis using False inv(1,3) assms(2) fits
      by (simp add: state_ok_def)
  qed
qed

lemma chunk_loop_snoc_free:
  "chunk_loop C src (s # rest) state = chunk_loop C src rest (chunk_loop C src [s] state)"
  by (cases state) simp

lemma state_ok_loop:
  "list_all good_sentence sentences \<Longrightarrow> state_ok C state \<Longrightarrow>
   state_ok C (chunk_loop C src sentences state)"
proof (induction sentences arbitrary: state)
  case Nil
  then show ?case by simp
next
  case (Cons s rest)
  obtain chunks cur sents where st: "state = (chunks, cur, sents)" by (cases state)
  have "state_ok C (chunk_loop C src [s] state)"
    using Cons.prems st state_ok_step [of C chunks cur sents s src] by simp
  then show ?case using Cons by (subst chunk_loop_snoc_free) simp
qed

lemma split_into_sentences_good: "list_all good_sentence (split_into_sentences txt)"
proof -
  have "good_sentence (strip p)" if "10 \<le> length (strip p)" for p
  proof -
    have "strip p \<noteq> []" using that by auto
    then show ?thesis using strip_ends [of p] that by (simp add: good_sentence_def)
  qed
  then show ?thesis
    by (auto simp: split_into_sentences_def list_all_iff)
qed

text \<open>
  Claim C6 as amended. Every chunk of \<^verbatim>\<open>chunk_text\<close> is trimmed and at least 10
  characters long, the length below which a sentence is dropped: \<^verbatim>\<open>min_chunk_size\<close> is
  checked for the chunk left after the last sentence only, not for a chunk closed inside
  the loop. A chunk is never cut inside a sentence, so a chunk of a single sentence can be
  longer than \<^verbatim>\<open>chunk_size\<close>; a chunk that holds at least two sentences and starts
  without an overlap seed (its text is its sentences joined by single spaces) is at most
  \<^verbatim>\<open>chunk_size\<close> characters long.
\<close>

theorem chunk_text_bounds:
  "\<forall>c \<in> set (chunk_text C txt src).
     10 \<le> length (ch_text c) \<and> strip (ch_text c) = ch_text c \<and>
     (ch_text c = join_spaces (ch_sentences c) \<and> 2 \<le> length (ch_sentences c) \<longrightarrow>
        int (length (ch_text c)) \<le> chunk_size C)"
proof -
  obtain chunks cur sents where
    run: "chunk_loop C src (split_into_sentences txt) ([], [], []) = (chunks, cur, sents)"
    by (cases "chunk_loop C src (split_into_sentences txt) ([], [], [])")
  have "state_ok C ([], [], [])" by (simp add: state_ok_def)
  then have ok: "state_ok C (chunks, cur, sents)"
    using state_ok_loop [of "split_into_sentences txt" C "([], [], [])" src]
      split_into_sentences_good [of "txt"] run by simp
  then have chunks: "list_all (chunk_ok C) chunks" by (simp add: state_ok_def)
  have last: "chunk_ok C \<lparr>ch_text = strip cur, ch_source = src, ch_chunk_id = length chunks,
      ch_sentences = sents\<rparr>" if "strip cur \<noteq> []"
  proof -
    have "cur \<noteq> []" using that strip_Nil by auto
    with ok have "sents \<noteq> [] \<and> list_all good_sentence sents \<and>
        (\<exists>pre. strip pre = pre \<and> cur = pre @ spaced sents) \<and>
        (2 \<le> length sents \<longrightarrow> int (length cur) \<le> chunk_size C + 1)"
      unfolding state_ok_def by simp
    then obtain pre where
      "sents \<noteq> []" "list_all good_sentence sents" "strip pre = pre" "cur = pre @ spaced sents"
      "2 \<le> length sents \<longrightarrow> int (length cur) \<le> chunk_size C + 1"
      by blast
    then show ?thesis by (rule closed_chunk_ok)
  qed
  have "list_all (chunk_ok C) (chunk_text C txt src)"
    using chunks last run by (simp add: chunk_text_def)
  then show ?thesis by (simp add: list_all_iff chunk_ok_def)
qed

theorem chunk_text_bounds_witness:
  "map (\<lambda>c. (length (ch_text c), length (ch_sentences c)))
     (chunk_text \<lparr>chunk_size = 30, overlap = 0, min_chunk_size = 10\<rparr> three_sentences (ascii ''doc''))
   = [(25, 2), (12, 1)]"
  using chunk_text_bounds
    [of "\<lparr>chunk_size = 30, overlap = 0, min_chunk_size = 10\<rparr>" three_sentences "ascii ''doc''"]
  by (simp add: chunk_text_def split_three get_overlap_text_def)
     (simp add: three_sentences_def strip_def is_space_def)

end
